theory Spec2Isabelle
  imports Complex_Main
begin

section \<open>Data model\<close>

text \<open>
  The repository holds two generations of the breaker engine in the same package:
  \<^item> \<^verbatim>\<open>circuitbreaker.go\<close>: the window is a list of \<open>{failed, slow}\<close> records, at most one
    record is dropped before an insertion, and the rates are computed by a linear scan;
  \<^item> the engine that follows the configuration and the state register in \<^verbatim>\<open>config.go\<close>:
    records carry a timestamp, the window is pruned by a count-based or time-based loop,
    and two counters are maintained incrementally.
  The second one keeps the source's names. The definitions taken from
  \<^verbatim>\<open>circuitbreaker.go\<close> carry the suffix \<open>_scan\<close>.

  Conventions. A \<^verbatim>\<open>time.Time\<close> is the number of nanoseconds since the zero
  \<^verbatim>\<open>time.Time\<close>, a \<^verbatim>\<open>time.Duration\<close> a number of nanoseconds, both as unbounded
  integers; \<^verbatim>\<open>time.Since(t)\<close> at clock reading \<open>now\<close> is \<open>now - t\<close>. Go's \<^verbatim>\<open>int\<close> is
  \<open>int\<close>: the counters of the engine are bounded by the window length and by the
  half-open quota, so no 64-bit wrap-around is reachable there. The one operation on a
  configured integer that can wrap is the negation \<^verbatim>\<open>-time.Duration(SlidingWindowSize)\<close>,
  which is taken in 64-bit two's complement (\<open>wrap64\<close>). A rate is a \<^verbatim>\<open>float64\<close>, computed
  with the roundings of IEEE 754 binary64 arithmetic (next section); the two
  thresholds of the configuration are finite \<^verbatim>\<open>float64\<close> values, given as the real numbers
  they denote. A \<^verbatim>\<open>*list.List\<close> is a list, oldest record first; a nil list pointer and
  an empty list are the same window, since \<^verbatim>\<open>addRequest\<close> allocates the list before
  anything reads it.
\<close>

type_synonym Time = int
type_synonym Duration = int

type_synonym SlidingWindowType = string

definition COUNT_BASED :: SlidingWindowType where
  "COUNT_BASED = ''COUNT_BASED''"

definition TIME_BASED :: SlidingWindowType where
  "TIME_BASED = ''TIME_BASED''"

text \<open>
  \<open>Config\<close> has the fields of the declaration in \<^verbatim>\<open>config.go\<close>. The field
  \<open>SlidingWindowTime\<close> exists only in the repository's alternate declaration of
  \<open>Config\<close>; it is carried here so that its influence on the engine can be stated.
\<close>

record Config =
  Name :: string
  FailureRateThreshold :: real
  MinimumNumberOfCalls :: int
  PermittedNumberOfCallsInHalfOpenState :: int
  WaitDurationInOpenState :: Duration
  SlidingWindowSize :: int
  SlidingWindowTime :: Duration
  SlidingWindowType :: SlidingWindowType
  SlowCallDurationThreshold :: Duration
  SlowCallRateThreshold :: real

text \<open>
  \<open>State\<close> is a string type of which the package stores three constants only
  (\<open>NewCircuitBreaker\<close> and every \<open>SetState\<close> call pass one of them), so it is an
  enumeration here. The breaker holds a pointer to the state register: \<open>None\<close> is the
  nil pointer of a breaker that was not built by \<open>NewCircuitBreaker\<close>.
\<close>

datatype State = Closed | Open | HalfOpen

text \<open>
  An \<^verbatim>\<open>error\<close> returned by \<open>Execute\<close> is either allocated by the breaker with
  \<^verbatim>\<open>errors.New\<close> or is the value the action returned.
\<close>

datatype 'e error = errors_New string | action_error 'e

datatype panic = NilPointerDereference

text \<open>
  One call of \<open>Execute\<close> as the breaker observes it: the clock readings in program
  order, and what the opaque action does when it is invoked (the error it returns, nil
  as \<open>None\<close>, and the time it takes).
  \<^item> \<open>now_admit\<close>: the clock at \<^verbatim>\<open>time.Since(cb.lastFailureTime)\<close> in the admission check;
  \<^item> \<open>action_duration\<close>: \<^verbatim>\<open>time.Since(start)\<close> after the action returned;
  \<^item> \<open>now_prune\<close>: \<^verbatim>\<open>time.Now()\<close> in \<open>enforceTimeBasedWindow\<close>;
  \<^item> \<open>now_push\<close>: \<^verbatim>\<open>time.Now()\<close> stored as \<open>executionTime\<close> of the new record;
  \<^item> \<open>now_eval\<close>: the clock in the transition switch of \<open>recordResult\<close> (each branch
    reads it at most once).
  An action that panics or never returns is not a \<open>Call\<close>: \<open>Execute\<close> then records nothing.
  Log output is left out.
\<close>

record 'e Call =
  now_admit :: Time
  action_err :: "'e option"
  action_duration :: Duration
  now_prune :: Time
  now_push :: Time
  now_eval :: Time

section \<open>Machine arithmetic\<close>

text \<open>
  \<open>wrap64\<close> is the value of a 64-bit two's complement integer operation whose exact result
  is the argument: it is the identity between \<open>- 2 ^ 63\<close> and \<open>2 ^ 63 - 1\<close> and wraps
  around outside.
\<close>

definition wrap64 :: "int \<Rightarrow> int" where
  "wrap64 x = (x + 2 ^ 63) mod 2 ^ 64 - 2 ^ 63"

text \<open>
  A \<^verbatim>\<open>float64\<close> is a finite value, given by the real number it denotes, an infinity or
  NaN. The two zeros are both \<open>Finite 0\<close>: the breaker divides by a window length only,
  never by a negative zero, and \<^verbatim>\<open>>=\<close> does not tell the zeros apart.

  \<open>round64\<close> rounds a real number to the nearest \<^verbatim>\<open>float64\<close>, ties to even: the result is
  a multiple of \<open>2 ^ (e - 52)\<close>, where \<open>e\<close> is the binary exponent of the argument
  (\<open>2 ^ e \<le> \<bar>x\<bar> < 2 ^ (e + 1)\<close>) and at least \<open>- 1022\<close> (gradual underflow); a rounded
  value of magnitude \<open>2 ^ 1024\<close> or more is an infinity. \<open>bitlen n\<close> is the number of
  binary digits of \<open>n\<close>.
\<close>

datatype float64 = Finite real | PosInf | NegInf | NaN

fun bitlen :: "nat \<Rightarrow> nat" where
  "bitlen n = (if n = 0 then 0 else Suc (bitlen (n div 2)))"

declare bitlen.simps [simp del]

definition pow2 :: "int \<Rightarrow> real" where
  "pow2 e = (if 0 \<le> e then 2 ^ nat e else 1 / 2 ^ nat (- e))"

definition binexp :: "real \<Rightarrow> int" where
  "binexp x =
     (if 1 \<le> x then int (bitlen (nat \<lfloor>x\<rfloor>)) - 1
      else - int (bitlen (nat (\<lceil>1 / x\<rceil> - 1))))"

definition roundeven :: "real \<Rightarrow> int" where
  "roundeven y =
     (let f = \<lfloor>y\<rfloor>; d = y - of_int f
      in if d < 1 / 2 then f
         else if 1 / 2 < d then f + 1
         else if even f then f else f + 1)"

definition round64 :: "real \<Rightarrow> float64" where
  "round64 x =
     (if x = 0 then Finite 0
      else
        (let e = max (binexp \<bar>x\<bar>) (- 1022);
             u = pow2 (e - 52);
             r = of_int (roundeven (x / u)) * u
         in if pow2 1024 \<le> \<bar>r\<bar> then (if 0 < x then PosInf else NegInf)
            else Finite r))"

text \<open>The conversion \<^verbatim>\<open>float64(n)\<close> of an integer, and the operators \<^verbatim>\<open>/\<close>, \<^verbatim>\<open>*\<close> and
  \<^verbatim>\<open>>=\<close> on \<^verbatim>\<open>float64\<close>.\<close>

definition float64_of_int :: "int \<Rightarrow> float64" where
  "float64_of_int n = round64 (of_int n)"

fun fdiv :: "float64 \<Rightarrow> float64 \<Rightarrow> float64" where
  "fdiv NaN b = NaN"
| "fdiv a NaN = NaN"
| "fdiv (Finite x) (Finite y) =
     (if y = 0 then (if x = 0 then NaN else if 0 < x then PosInf else NegInf)
      else round64 (x / y))"
| "fdiv (Finite x) b = Finite 0"
| "fdiv PosInf (Finite y) = (if 0 \<le> y then PosInf else NegInf)"
| "fdiv NegInf (Finite y) = (if 0 \<le> y then NegInf else PosInf)"
| "fdiv a b = NaN"

fun fmul :: "float64 \<Rightarrow> float64 \<Rightarrow> float64" where
  "fmul NaN b = NaN"
| "fmul a NaN = NaN"
| "fmul (Finite x) (Finite y) = round64 (x * y)"
| "fmul (Finite x) PosInf = (if x = 0 then NaN else if 0 < x then PosInf else NegInf)"
| "fmul (Finite x) NegInf = (if x = 0 then NaN else if 0 < x then NegInf else PosInf)"
| "fmul PosInf (Finite y) = (if y = 0 then NaN else if 0 < y then PosInf else NegInf)"
| "fmul NegInf (Finite y) = (if y = 0 then NaN else if 0 < y then NegInf else PosInf)"
| "fmul PosInf PosInf = PosInf"
| "fmul NegInf NegInf = PosInf"
| "fmul PosInf NegInf = NegInf"
| "fmul NegInf PosInf = NegInf"

fun fge :: "float64 \<Rightarrow> float64 \<Rightarrow> bool" where
  "fge NaN b = False"
| "fge a NaN = False"
| "fge (Finite x) (Finite y) = (y \<le> x)"
| "fge PosInf b = True"
| "fge a NegInf = True"
| "fge a b = False"

section \<open>The engine with incremental counters\<close>

record requestEntry =
  failed :: bool
  slow :: bool
  executionTime :: Time

record CircuitBreaker =
  config :: Config
  state :: "State option"
  halfOpenCalls :: int
  lastFailureTime :: Time
  requests :: "requestEntry list"
  failureCount :: int
  slowCallCount :: int

record 'e ExecuteResult =
  returned :: "'e error option"
  invoked :: bool
  breaker :: CircuitBreaker

definition NewCircuitBreaker :: "Config \<Rightarrow> CircuitBreaker" where
  "NewCircuitBreaker c =
     \<lparr>config = c, state = Some Closed, halfOpenCalls = 0, lastFailureTime = 0,
      requests = [], failureCount = 0, slowCallCount = 0\<rparr>"

definition IsOpen :: "CircuitBreaker \<Rightarrow> bool" where
  "IsOpen cb = (state cb = Some Open)"

definition IsHalfOpen :: "CircuitBreaker \<Rightarrow> bool" where
  "IsHalfOpen cb = (state cb = Some HalfOpen)"

definition SetState :: "CircuitBreaker \<Rightarrow> State \<Rightarrow> CircuitBreaker" where
  "SetState cb newState = cb\<lparr>state := Some newState\<rparr>"

definition removeFrontRequest :: "CircuitBreaker \<Rightarrow> CircuitBreaker" where
  "removeFrontRequest cb =
     (case requests cb of
        [] \<Rightarrow> cb
      | entry # rest \<Rightarrow>
          (if failed entry then cb\<lparr>failureCount := failureCount cb - 1\<rparr>
           else if slow entry then cb\<lparr>slowCallCount := slowCallCount cb - 1\<rparr>
           else cb)\<lparr>requests := rest\<rparr>)"

text \<open>
  The loop of \<open>enforceCountBasedWindow\<close> has no exit when the window is empty and
  \<open>SlidingWindowSize \<le> 0\<close>: the result \<open>None\<close> stands for a call that never returns.
\<close>

partial_function (option) enforceCountBasedWindow :: "CircuitBreaker \<Rightarrow> CircuitBreaker option" where
  "enforceCountBasedWindow cb =
     (if int (length (requests cb)) \<ge> SlidingWindowSize (config cb)
      then (if requests cb \<noteq> [] then enforceCountBasedWindow (removeFrontRequest cb)
            else enforceCountBasedWindow cb)
      else Some cb)"

declare enforceCountBasedWindow.simps [code]

text \<open>
  The loop of \<open>enforceTimeBasedWindow\<close>, for a fixed \<open>expirationTime\<close>. A record is
  dropped when \<^verbatim>\<open>entry.executionTime.Before(expirationTime)\<close> holds.
\<close>

function enforceTimeBasedLoop :: "CircuitBreaker \<Rightarrow> Time \<Rightarrow> CircuitBreaker" where
  "enforceTimeBasedLoop cb expirationTime =
     (case requests cb of
        [] \<Rightarrow> cb
      | entry # rest \<Rightarrow>
          if \<not> (executionTime entry < expirationTime) then cb
          else enforceTimeBasedLoop (removeFrontRequest cb) expirationTime)"
  by pat_completeness auto
termination
  by (relation "measure (\<lambda>(cb, t). length (requests cb))")
     (auto simp: removeFrontRequest_def)

declare enforceTimeBasedLoop.simps [simp del]

definition enforceTimeBasedWindow :: "CircuitBreaker \<Rightarrow> Time \<Rightarrow> CircuitBreaker" where
  "enforceTimeBasedWindow cb now =
     (let expirationTime = now + wrap64 (- SlidingWindowSize (config cb))
      in enforceTimeBasedLoop cb expirationTime)"

definition cleanupOldRequests :: "CircuitBreaker \<Rightarrow> Time \<Rightarrow> CircuitBreaker option" where
  "cleanupOldRequests cb now =
     (if SlidingWindowType (config cb) = COUNT_BASED then enforceCountBasedWindow cb
      else if SlidingWindowType (config cb) = TIME_BASED then Some (enforceTimeBasedWindow cb now)
      else Some cb)"

definition addRequest :: "CircuitBreaker \<Rightarrow> bool \<Rightarrow> bool \<Rightarrow> Time \<Rightarrow> Time \<Rightarrow> CircuitBreaker option" where
  "addRequest cb isFailed isSlow t_prune t_push =
     (case cleanupOldRequests cb t_prune of
        None \<Rightarrow> None
      | Some cb1 \<Rightarrow>
          (let cb2 = cb1\<lparr>requests := requests cb1 @
                       [\<lparr>failed = isFailed, slow = isSlow, executionTime = t_push\<rparr>]\<rparr>
           in Some (if isFailed then cb2\<lparr>failureCount := failureCount cb2 + 1\<rparr>
                    else if isSlow then cb2\<lparr>slowCallCount := slowCallCount cb2 + 1\<rparr>
                    else cb2)))"

definition getFailureRate :: "CircuitBreaker \<Rightarrow> float64" where
  "getFailureRate cb =
     (if length (requests cb) = 0 then Finite 0
      else fmul (fdiv (float64_of_int (failureCount cb))
                      (float64_of_int (int (length (requests cb)))))
                (Finite 100))"

definition getSlowCallRate :: "CircuitBreaker \<Rightarrow> float64" where
  "getSlowCallRate cb =
     (if length (requests cb) = 0 then Finite 0
      else fmul (fdiv (float64_of_int (slowCallCount cb))
                      (float64_of_int (int (length (requests cb)))))
                (Finite 100))"

text \<open>
  \<open>recordResult\<close>: reading \<^verbatim>\<open>cb.state.state\<close> through a nil pointer panics; \<open>None\<close>
  is a call whose pruning loop never returns.
\<close>

definition recordResult ::
  "CircuitBreaker \<Rightarrow> 'e option \<Rightarrow> bool \<Rightarrow> Time \<Rightarrow> Time \<Rightarrow> Time \<Rightarrow> (panic + CircuitBreaker) option" where
  "recordResult cb err isSlow t_prune t_push t_eval =
     (case addRequest cb (err \<noteq> None) isSlow t_prune t_push of
        None \<Rightarrow> None
      | Some cb1 \<Rightarrow>
          (let failureRate = getFailureRate cb1; slowCallRate = getSlowCallRate cb1 in
           case state cb1 of
             None \<Rightarrow> Some (Inl NilPointerDereference)
           | Some Closed \<Rightarrow>
               if int (length (requests cb1)) \<ge> MinimumNumberOfCalls (config cb1) \<and>
                  (fge failureRate (Finite (FailureRateThreshold (config cb1))) \<or>
                   fge slowCallRate (Finite (SlowCallRateThreshold (config cb1))))
               then Some (Inr ((SetState cb1 Open)\<lparr>lastFailureTime := t_eval\<rparr>))
               else Some (Inr cb1)
           | Some Open \<Rightarrow>
               if t_eval - lastFailureTime cb1 \<ge> WaitDurationInOpenState (config cb1)
               then Some (Inr ((SetState cb1 HalfOpen)\<lparr>halfOpenCalls := 0\<rparr>))
               else Some (Inr cb1)
           | Some HalfOpen \<Rightarrow>
               if err \<noteq> None \<or> isSlow
               then Some (Inr ((SetState cb1 Open)\<lparr>halfOpenCalls := 0, lastFailureTime := t_eval\<rparr>))
               else if halfOpenCalls cb1 \<ge> PermittedNumberOfCallsInHalfOpenState (config cb1)
                    then Some (Inr ((SetState cb1 Closed)\<lparr>halfOpenCalls := 0\<rparr>))
                    else Some (Inr cb1)))"

text \<open>
  The critical section of \<open>Execute\<close> that precedes the action: the decision (a rejection
  carries the message handed to \<^verbatim>\<open>errors.New\<close>), and the breaker as it stands when the
  lock is released.
\<close>

datatype admission = Rejected string CircuitBreaker | Admitted CircuitBreaker

definition preAdmission :: "CircuitBreaker \<Rightarrow> Time \<Rightarrow> admission" where
  "preAdmission cb now =
     (if state cb = None
      then Rejected ''circuit breaker state is not initialized'' cb
      else
        (let cb1 = (if IsOpen cb \<and> now - lastFailureTime cb \<ge> WaitDurationInOpenState (config cb)
                    then (SetState cb HalfOpen)\<lparr>halfOpenCalls := 0\<rparr>
                    else cb)
         in if IsOpen cb1
            then Rejected (Name (config cb1) @ '' :circuit breaker is in opened state'') cb1
            else if IsHalfOpen cb1
            then (if halfOpenCalls cb1 \<ge> PermittedNumberOfCallsInHalfOpenState (config cb1)
                  then Rejected (Name (config cb1) @
                         '' :circuit breaker half-open, no more calls allowed'') cb1
                  else Admitted (cb1\<lparr>halfOpenCalls := halfOpenCalls cb1 + 1\<rparr>))
            else Admitted cb1))"

definition Execute :: "CircuitBreaker \<Rightarrow> 'e Call \<Rightarrow> (panic + 'e ExecuteResult) option" where
  "Execute cb call =
     (case preAdmission cb (now_admit call) of
        Rejected msg cb1 \<Rightarrow>
          Some (Inr \<lparr>returned = Some (errors_New msg), invoked = False, breaker = cb1\<rparr>)
      | Admitted cb1 \<Rightarrow>
          (let err = action_err call;
               isSlow = (action_duration call \<ge> SlowCallDurationThreshold (config cb1))
           in case recordResult cb1 err isSlow (now_prune call) (now_push call) (now_eval call) of
                None \<Rightarrow> None
              | Some (Inl p) \<Rightarrow> Some (Inl p)
              | Some (Inr cb2) \<Rightarrow>
                  Some (Inr \<lparr>returned = map_option action_error err, invoked = True,
                             breaker = cb2\<rparr>)))"

text \<open>A sequence of calls on one breaker, one after the other.\<close>

fun run :: "CircuitBreaker \<Rightarrow> 'e Call list \<Rightarrow> (panic + CircuitBreaker) option" where
  "run cb [] = Some (Inr cb)"
| "run cb (call # calls) =
     (case Execute cb call of
        None \<Rightarrow> None
      | Some (Inl p) \<Rightarrow> Some (Inl p)
      | Some (Inr r) \<Rightarrow> run (breaker r) calls)"

section \<open>The engine of circuitbreaker.go\<close>

record requestEntry_scan =
  failed_scan :: bool
  slow_scan :: bool

record CircuitBreaker_scan =
  config_scan :: Config
  state_scan :: "State option"
  halfOpenCalls_scan :: int
  lastFailureTime_scan :: Time
  requests_scan :: "requestEntry_scan list"

record 'e ExecuteResult_scan =
  returned_scan :: "'e error option"
  invoked_scan :: bool
  breaker_scan :: CircuitBreaker_scan

definition NewCircuitBreaker_scan :: "Config \<Rightarrow> CircuitBreaker_scan" where
  "NewCircuitBreaker_scan c =
     \<lparr>config_scan = c, state_scan = Some Closed, halfOpenCalls_scan = 0,
      lastFailureTime_scan = 0, requests_scan = []\<rparr>"

definition IsOpen_scan :: "CircuitBreaker_scan \<Rightarrow> bool" where
  "IsOpen_scan cb = (state_scan cb = Some Open)"

definition IsHalfOpen_scan :: "CircuitBreaker_scan \<Rightarrow> bool" where
  "IsHalfOpen_scan cb = (state_scan cb = Some HalfOpen)"

definition SetState_scan :: "CircuitBreaker_scan \<Rightarrow> State \<Rightarrow> CircuitBreaker_scan" where
  "SetState_scan cb newState = cb\<lparr>state_scan := Some newState\<rparr>"

definition addRequest_scan :: "CircuitBreaker_scan \<Rightarrow> bool \<Rightarrow> bool \<Rightarrow> CircuitBreaker_scan" where
  "addRequest_scan cb isFailed isSlow =
     (let cb1 = (if int (length (requests_scan cb)) \<ge> SlidingWindowSize (config_scan cb)
                 then (case requests_scan cb of
                         [] \<Rightarrow> cb
                       | front # rest \<Rightarrow> cb\<lparr>requests_scan := rest\<rparr>)
                 else cb)
      in cb1\<lparr>requests_scan := requests_scan cb1 @
               [\<lparr>failed_scan = isFailed, slow_scan = isSlow\<rparr>]\<rparr>)"

text \<open>The counting loops of \<open>getFailureRate\<close> and \<open>getSlowCallRate\<close>.\<close>

fun failuresLoop :: "requestEntry_scan list \<Rightarrow> int \<Rightarrow> int" where
  "failuresLoop [] failures = failures"
| "failuresLoop (e # es) failures =
     failuresLoop es (if failed_scan e then failures + 1 else failures)"

fun slowCallsLoop :: "requestEntry_scan list \<Rightarrow> int \<Rightarrow> int" where
  "slowCallsLoop [] slowCalls = slowCalls"
| "slowCallsLoop (entry # es) slowCalls =
     slowCallsLoop es (if slow_scan entry \<and> \<not> failed_scan entry then slowCalls + 1 else slowCalls)"

definition getFailureRate_scan :: "CircuitBreaker_scan \<Rightarrow> float64" where
  "getFailureRate_scan cb =
     (if length (requests_scan cb) = 0 then Finite 0
      else fmul (fdiv (float64_of_int (failuresLoop (requests_scan cb) 0))
                      (float64_of_int (int (length (requests_scan cb)))))
                (Finite 100))"

definition getSlowCallRate_scan :: "CircuitBreaker_scan \<Rightarrow> float64" where
  "getSlowCallRate_scan cb =
     (if length (requests_scan cb) = 0 then Finite 0
      else fmul (fdiv (float64_of_int (slowCallsLoop (requests_scan cb) 0))
                      (float64_of_int (int (length (requests_scan cb)))))
                (Finite 100))"

definition recordResult_scan ::
  "CircuitBreaker_scan \<Rightarrow> 'e option \<Rightarrow> bool \<Rightarrow> Time \<Rightarrow> panic + CircuitBreaker_scan" where
  "recordResult_scan cb err isSlow t_eval =
     (let cb1 = addRequest_scan cb (err \<noteq> None) isSlow;
          failureRate = getFailureRate_scan cb1;
          slowCallRate = getSlowCallRate_scan cb1 in
      case state_scan cb1 of
        None \<Rightarrow> Inl NilPointerDereference
      | Some Closed \<Rightarrow>
          if int (length (requests_scan cb1)) \<ge> MinimumNumberOfCalls (config_scan cb1) \<and>
             (fge failureRate (Finite (FailureRateThreshold (config_scan cb1))) \<or>
              fge slowCallRate (Finite (SlowCallRateThreshold (config_scan cb1))))
          then Inr ((SetState_scan cb1 Open)\<lparr>lastFailureTime_scan := t_eval\<rparr>)
          else Inr cb1
      | Some Open \<Rightarrow>
          if t_eval - lastFailureTime_scan cb1 \<ge> WaitDurationInOpenState (config_scan cb1)
          then Inr ((SetState_scan cb1 HalfOpen)\<lparr>halfOpenCalls_scan := 0\<rparr>)
          else Inr cb1
      | Some HalfOpen \<Rightarrow>
          if err \<noteq> None \<or> isSlow
          then Inr ((SetState_scan cb1 Open)\<lparr>halfOpenCalls_scan := 0, lastFailureTime_scan := t_eval\<rparr>)
          else if halfOpenCalls_scan cb1 \<ge> PermittedNumberOfCallsInHalfOpenState (config_scan cb1)
               then Inr ((SetState_scan cb1 Closed)\<lparr>halfOpenCalls_scan := 0\<rparr>)
               else Inr cb1)"

datatype admission_scan =
  Rejected_scan string CircuitBreaker_scan | Admitted_scan CircuitBreaker_scan

definition preAdmission_scan :: "CircuitBreaker_scan \<Rightarrow> Time \<Rightarrow> admission_scan" where
  "preAdmission_scan cb now =
     (if state_scan cb = None
      then Rejected_scan ''circuit breaker state is not initialized'' cb
      else
        (let cb1 = (if IsOpen_scan cb \<and>
                       now - lastFailureTime_scan cb \<ge> WaitDurationInOpenState (config_scan cb)
                    then (SetState_scan cb HalfOpen)\<lparr>halfOpenCalls_scan := 0\<rparr>
                    else cb)
         in if IsOpen_scan cb1
            then Rejected_scan (Name (config_scan cb1) @
                   '' :circuit breaker is in opened state'') cb1
            else if IsHalfOpen_scan cb1
            then (if halfOpenCalls_scan cb1 \<ge> PermittedNumberOfCallsInHalfOpenState (config_scan cb1)
                  then Rejected_scan (Name (config_scan cb1) @
                         '' :circuit breaker half-open, no more calls allowed'') cb1
                  else Admitted_scan (cb1\<lparr>halfOpenCalls_scan := halfOpenCalls_scan cb1 + 1\<rparr>))
            else Admitted_scan cb1))"

definition Execute_scan :: "CircuitBreaker_scan \<Rightarrow> 'e Call \<Rightarrow> panic + 'e ExecuteResult_scan" where
  "Execute_scan cb call =
     (case preAdmission_scan cb (now_admit call) of
        Rejected_scan msg cb1 \<Rightarrow>
          Inr \<lparr>returned_scan = Some (errors_New msg), invoked_scan = False, breaker_scan = cb1\<rparr>
      | Admitted_scan cb1 \<Rightarrow>
          (let err = action_err call;
               isSlow = (action_duration call \<ge> SlowCallDurationThreshold (config_scan cb1))
           in case recordResult_scan cb1 err isSlow (now_eval call) of
                Inl p \<Rightarrow> Inl p
              | Inr cb2 \<Rightarrow>
                  Inr \<lparr>returned_scan = map_option action_error err, invoked_scan = True,
                       breaker_scan = cb2\<rparr>))"

fun run_scan :: "CircuitBreaker_scan \<Rightarrow> 'e Call list \<Rightarrow> panic + CircuitBreaker_scan" where
  "run_scan cb [] = Inr cb"
| "run_scan cb (call # calls) =
     (case Execute_scan cb call of
        Inl p \<Rightarrow> Inl p
      | Inr r \<Rightarrow> run_scan (breaker_scan r) calls)"

section \<open>Notions used in the statements\<close>

text \<open>
  The percentage both engines return for \<open>count\<close> records out of a window of \<open>len\<close>:
  the expression \<^verbatim>\<open>(float64(count) / float64(len)) * 100\<close> of the four rate functions.
\<close>

definition percentage :: "int \<Rightarrow> int \<Rightarrow> float64" where
  "percentage count len = fmul (fdiv (float64_of_int count) (float64_of_int len)) (Finite 100)"

text \<open>The two counters agree with a linear scan of the window.\<close>

definition exactCounters :: "CircuitBreaker \<Rightarrow> bool" where
  "exactCounters cb =
     (failureCount cb = int (length (filter failed (requests cb))) \<and>
      slowCallCount cb = int (length (filter (\<lambda>e. slow e \<and> \<not> failed e) (requests cb))))"

text \<open>The messages of the two rejection errors of \<open>Execute\<close>, as the source builds them.\<close>

definition rejectedOpen :: "Config \<Rightarrow> string" where
  "rejectedOpen c = Name c @ '' :circuit breaker is in opened state''"

definition rejectedHalfOpenLimit :: "Config \<Rightarrow> string" where
  "rejectedHalfOpenLimit c = Name c @ '' :circuit breaker half-open, no more calls allowed''"

text \<open>The same breaker, of either engine, with another value of the configuration field
  \<open>SlidingWindowTime\<close>.\<close>

definition withSlidingWindowTime :: "Duration \<Rightarrow> CircuitBreaker \<Rightarrow> CircuitBreaker" where
  "withSlidingWindowTime d cb = cb\<lparr>config := (config cb)\<lparr>SlidingWindowTime := d\<rparr>\<rparr>"

definition withSlidingWindowTime_scan :: "Duration \<Rightarrow> CircuitBreaker_scan \<Rightarrow> CircuitBreaker_scan" where
  "withSlidingWindowTime_scan d cb = cb\<lparr>config_scan := (config_scan cb)\<lparr>SlidingWindowTime := d\<rparr>\<rparr>"

text \<open>The record \<open>addRequest\<close> appends for a call, in either engine.\<close>

definition entryOf :: "Config \<Rightarrow> 'e Call \<Rightarrow> requestEntry" where
  "entryOf c call =
     \<lparr>failed = (action_err call \<noteq> None),
      slow = (SlowCallDurationThreshold c \<le> action_duration call),
      executionTime = now_push call\<rparr>"

definition entryOf_scan :: "Config \<Rightarrow> 'e Call \<Rightarrow> requestEntry_scan" where
  "entryOf_scan c call =
     \<lparr>failed_scan = (action_err call \<noteq> None),
      slow_scan = (SlowCallDurationThreshold c \<le> action_duration call)\<rparr>"

text \<open>A Closed breaker whose window holds the records of the given calls, nothing pruned.\<close>

definition windowAfter :: "Config \<Rightarrow> 'e Call list \<Rightarrow> CircuitBreaker" where
  "windowAfter c calls =
     \<lparr>config = c, state = Some Closed, halfOpenCalls = 0, lastFailureTime = 0,
      requests = map (entryOf c) calls,
      failureCount = int (length (filter failed (map (entryOf c) calls))),
      slowCallCount =
        int (length (filter (\<lambda>e. slow e \<and> \<not> failed e) (map (entryOf c) calls)))\<rparr>"

definition windowAfter_scan :: "Config \<Rightarrow> 'e Call list \<Rightarrow> CircuitBreaker_scan" where
  "windowAfter_scan c calls =
     \<lparr>config_scan = c, state_scan = Some Closed, halfOpenCalls_scan = 0,
      lastFailureTime_scan = 0, requests_scan = map (entryOf_scan c) calls\<rparr>"

section \<open>Concrete configurations, calls and breakers\<close>

text \<open>
  The configuration of \<^verbatim>\<open>TestHalfOpenToClosedTransition\<close> (durations in nanoseconds), a call
  whose action fails and one whose action succeeds, each taking 1000 ns from admission
  at clock reading \<open>t\<close>, and a call that succeeds with every clock reading at 40.
\<close>

definition testConfig :: Config where
  "testConfig =
     \<lparr>Name = ''test'', FailureRateThreshold = 50, MinimumNumberOfCalls = 6,
      PermittedNumberOfCallsInHalfOpenState = 3, WaitDurationInOpenState = 2000000000,
      SlidingWindowSize = 10, SlidingWindowTime = 0, SlidingWindowType = COUNT_BASED,
      SlowCallDurationThreshold = 200000000, SlowCallRateThreshold = 50\<rparr>"

definition failingCall :: "Time \<Rightarrow> string Call" where
  "failingCall t =
     \<lparr>now_admit = t, action_err = Some ''failure'', action_duration = 1000,
      now_prune = t + 1000, now_push = t + 1000, now_eval = t + 1000\<rparr>"

definition succeedingCall :: "Time \<Rightarrow> string Call" where
  "succeedingCall t =
     \<lparr>now_admit = t, action_err = None, action_duration = 1000,
      now_prune = t + 1000, now_push = t + 1000, now_eval = t + 1000\<rparr>"

definition callAt40 :: "string Call" where
  "callAt40 =
     \<lparr>now_admit = 40, action_err = None, action_duration = 1,
      now_prune = 40, now_push = 40, now_eval = 40\<rparr>"

text \<open>The configuration of the test with a window size of 0.\<close>

definition zeroSizeConfig :: Config where
  "zeroSizeConfig = testConfig\<lparr>SlidingWindowSize := 0\<rparr>"

text \<open>Breakers of both engines in the Open state, last opened at clock reading 1000.\<close>

definition openBreaker :: CircuitBreaker where
  "openBreaker =
     \<lparr>config = testConfig, state = Some Open, halfOpenCalls = 0, lastFailureTime = 1000,
      requests = [\<lparr>failed = True, slow = False, executionTime = 1000\<rparr>],
      failureCount = 1, slowCallCount = 0\<rparr>"

definition openBreaker_scan :: CircuitBreaker_scan where
  "openBreaker_scan =
     \<lparr>config_scan = testConfig, state_scan = Some Open, halfOpenCalls_scan = 0,
      lastFailureTime_scan = 1000,
      requests_scan = [\<lparr>failed_scan = True, slow_scan = False\<rparr>]\<rparr>"

text \<open>Breakers of both engines in the Half-Open state with two probe calls admitted.\<close>

definition halfOpenBreaker :: CircuitBreaker where
  "halfOpenBreaker = openBreaker\<lparr>state := Some HalfOpen, halfOpenCalls := 2\<rparr>"

definition halfOpenBreaker_scan :: CircuitBreaker_scan where
  "halfOpenBreaker_scan = openBreaker_scan\<lparr>state_scan := Some HalfOpen, halfOpenCalls_scan := 2\<rparr>"



text \<open>
  Time-based windows: one of 1000 ns whose four records, observed at 10, 20, 30 and 40,
  have all expired at clock reading 5000; the same records in a window of 15 ns; and a
  window of 1000 ns holding a single record observed at 4000.
\<close>

definition expiredWindow :: CircuitBreaker where
  "expiredWindow =
     \<lparr>config = testConfig\<lparr>SlidingWindowType := TIME_BASED, SlidingWindowSize := 1000\<rparr>,
      state = Some Closed, halfOpenCalls = 0, lastFailureTime = 0,
      requests = [\<lparr>failed = True, slow = True, executionTime = 10\<rparr>,
                  \<lparr>failed = False, slow = True, executionTime = 20\<rparr>,
                  \<lparr>failed = False, slow = False, executionTime = 30\<rparr>,
                  \<lparr>failed = False, slow = True, executionTime = 40\<rparr>],
      failureCount = 1, slowCallCount = 2\<rparr>"

definition agedWindow :: CircuitBreaker where
  "agedWindow = expiredWindow\<lparr>config := (config expiredWindow)\<lparr>SlidingWindowSize := 15\<rparr>\<rparr>"

definition boundaryWindow :: CircuitBreaker where
  "boundaryWindow =
     \<lparr>config = testConfig\<lparr>SlidingWindowType := TIME_BASED, SlidingWindowSize := 1000\<rparr>,
      state = Some Closed, halfOpenCalls = 0, lastFailureTime = 0,
      requests = [\<lparr>failed = False, slow = False, executionTime = 4000\<rparr>],
      failureCount = 0, slowCallCount = 0\<rparr>"

text \<open>
  Windows for the rounding of the rates. One failed call out of three, in the engine of
  \<^verbatim>\<open>circuitbreaker.go\<close>. A configuration with a failure threshold of 58 percent over at
  least 50 calls and room for 100 records, and Closed breakers of both engines under it
  whose window holds 28 failed calls followed by 21 calls neither failed nor slow.
  Closed breakers of both engines, under the configuration of the test, whose window
  holds five calls that were slow and did not fail.
\<close>

definition oneOfThree_scan :: CircuitBreaker_scan where
  "oneOfThree_scan =
     \<lparr>config_scan = testConfig, state_scan = Some Closed, halfOpenCalls_scan = 0,
      lastFailureTime_scan = 0,
      requests_scan = [\<lparr>failed_scan = True, slow_scan = False\<rparr>,
                       \<lparr>failed_scan = False, slow_scan = False\<rparr>,
                       \<lparr>failed_scan = False, slow_scan = False\<rparr>]\<rparr>"

definition wideConfig :: Config where
  "wideConfig =
     testConfig\<lparr>FailureRateThreshold := 58, MinimumNumberOfCalls := 50,
                 SlidingWindowSize := 100\<rparr>"


definition twentyEightOfFortyNine_scan :: CircuitBreaker_scan where
  "twentyEightOfFortyNine_scan =
     \<lparr>config_scan = wideConfig, state_scan = Some Closed, halfOpenCalls_scan = 0,
      lastFailureTime_scan = 0,
      requests_scan = replicate 28 \<lparr>failed_scan = True, slow_scan = False\<rparr> @
                      replicate 21 \<lparr>failed_scan = False, slow_scan = False\<rparr>\<rparr>"



text \<open>
  A time-based window whose configured size is the least 64-bit integer, holding a
  single record observed at 4000.
\<close>

definition minIntWindow :: CircuitBreaker where
  "minIntWindow =
     \<lparr>config = testConfig\<lparr>SlidingWindowType := TIME_BASED, SlidingWindowSize := - (2 ^ 63)\<rparr>,
      state = Some Closed, halfOpenCalls = 0, lastFailureTime = 0,
      requests = [\<lparr>failed = False, slow = False, executionTime = 4000\<rparr>],
      failureCount = 0, slowCallCount = 0\<rparr>"

section \<open>Binary exponent and rounding\<close>

lemma bitlen_bounds: "0 < n \<Longrightarrow> 2 ^ (bitlen n - 1) \<le> n \<and> n < 2 ^ bitlen n"
proof (induction n rule: bitlen.induct)
  case (1 n)
  show ?case
  proof (cases "n div 2 = 0")
    case True
    with "1.prems" have "n = 1" by auto
    then show ?thesis by (simp add: bitlen.simps[of "Suc 0"] bitlen.simps[of 0])
  next
    case False
    then have h: "0 < n div 2" by simp
    from "1.prems" have n0: "n \<noteq> 0" by simp
    from "1.IH"[OF n0 h] have
      a: "2 ^ (bitlen (n div 2) - 1) \<le> n div 2" and b: "n div 2 < 2 ^ bitlen (n div 2)"
      by simp_all
    have pos: "0 < bitlen (n div 2)" using h by (subst bitlen.simps) simp
    have e: "bitlen n = Suc (bitlen (n div 2))" using n0 by (subst bitlen.simps) simp
    from a have "2 * 2 ^ (bitlen (n div 2) - 1) \<le> n" by linarith
    moreover from pos have "(2::nat) * 2 ^ (bitlen (n div 2) - 1) = 2 ^ bitlen (n div 2)"
      by (cases "bitlen (n div 2)") simp_all
    moreover from b have "n < 2 * 2 ^ bitlen (n div 2)" by linarith
    ultimately show ?thesis by (simp add: e)
  qed
qed

lemma bitlen_pos: "0 < n \<Longrightarrow> 0 < bitlen n"
  by (subst bitlen.simps) simp

lemma pow2_powr: "pow2 e = 2 powr (of_int e)"
  by (simp add: pow2_def powr_real_of_int inverse_eq_divide)

lemma pow2_pos: "0 < pow2 e"
  by (simp add: pow2_powr)

lemma pow2_add: "pow2 (a + b) = pow2 a * pow2 b"
  by (simp add: pow2_powr powr_add)

lemma pow2_mono: "a \<le> b \<Longrightarrow> pow2 a \<le> pow2 b"
  by (simp add: pow2_powr)

lemma pow2_less_iff: "pow2 a < pow2 b \<longleftrightarrow> a < b"
  by (simp add: pow2_powr)

lemma pow2_nat: "pow2 (int k) = 2 ^ k"
  by (simp add: pow2_def)

lemma pow2_neg_nat: "pow2 (- int k) = 1 / 2 ^ k"
  by (simp add: pow2_powr powr_minus powr_realpow inverse_eq_divide)

lemma real_pow2_le: "(2::nat) ^ m \<le> n \<Longrightarrow> (2::real) ^ m \<le> real n"
  by simp

lemma real_less_pow2: "n < (2::nat) ^ m \<Longrightarrow> real n + 1 \<le> 2 ^ m"
proof -
  assume "n < 2 ^ m"
  then have "n + 1 \<le> 2 ^ m" by simp
  then have "real (n + 1) \<le> real (2 ^ m)" by (rule of_nat_mono)
  then show ?thesis by simp
qed

lemma binexp_bounds:
  assumes "0 < x"
  shows "pow2 (binexp x) \<le> x \<and> x < pow2 (binexp x + 1)"
proof (cases "1 \<le> x")
  case True
  define n where "n = nat \<lfloor>x\<rfloor>"
  from True have n: "0 < n" "real n \<le> x" "x < real n + 1"
    by (simp_all add: n_def)
  from bitlen_bounds[OF n(1)] have
    a: "(2::nat) ^ (bitlen n - 1) \<le> n" and b: "n < 2 ^ bitlen n" by simp_all
  from bitlen_pos[OF n(1)] have be: "binexp x = int (bitlen n - 1)" "binexp x + 1 = int (bitlen n)"
    using True by (simp_all add: binexp_def n_def)
  from real_pow2_le[OF a] n(2) have lo: "2 ^ (bitlen n - 1) \<le> x" by linarith
  from real_less_pow2[OF b] n(3) have hi: "x < 2 ^ bitlen n" by linarith
  have p1: "pow2 (binexp x) = 2 ^ (bitlen n - 1)" by (simp only: be(1) pow2_nat)
  have p2: "pow2 (binexp x + 1) = 2 ^ bitlen n" by (simp only: be(2) pow2_nat)
  from lo hi show ?thesis unfolding p1 p2 by simp
next
  case False
  with assms have x: "0 < x" "x < 1" by simp_all
  define c where "c = \<lceil>1 / x\<rceil>"
  from x have y: "1 < 1 / x" by simp
  then have c2: "2 \<le> c" unfolding c_def by linarith
  have cb: "real_of_int c - 1 < 1 / x" "1 / x \<le> real_of_int c"
    unfolding c_def by linarith+
  define k where "k = nat (c - 1)"
  from c2 have k: "0 < k" "int k = c - 1" by (simp_all add: k_def)
  from bitlen_bounds[OF k(1)] have
    a: "(2::nat) ^ (bitlen k - 1) \<le> k" and b: "k < 2 ^ bitlen k" by simp_all
  from bitlen_pos[OF k(1)] have bp: "0 < bitlen k" .
  have be: "binexp x = - int (bitlen k)" using False by (simp add: binexp_def k_def c_def)
  from bp obtain m where m: "bitlen k = Suc m" by (cases "bitlen k") auto
  have be1: "binexp x + 1 = - int (bitlen k - 1)" unfolding be m by simp
  from k(2) have rk: "real k = real_of_int c - 1" by (simp add: of_nat_diff)
  from real_pow2_le[OF a] rk cb(1) have "2 ^ (bitlen k - 1) < 1 / x" by linarith
  with x(1) have hi: "x < 1 / 2 ^ (bitlen k - 1)"
    by (simp add: field_simps)
  from real_less_pow2[OF b] rk cb(2) have "1 / x \<le> 2 ^ bitlen k" by linarith
  with x(1) have lo: "1 / 2 ^ bitlen k \<le> x"
    by (simp add: field_simps)
  have p1: "pow2 (binexp x) = 1 / 2 ^ bitlen k" by (simp only: be pow2_neg_nat)
  have p2: "pow2 (binexp x + 1) = 1 / 2 ^ (bitlen k - 1)" by (simp only: be1 pow2_neg_nat)
  from lo hi show ?thesis unfolding p1 p2 by simp
qed

lemma binexp_unique:
  assumes "pow2 e \<le> x" and "x < pow2 (e + 1)"
  shows "binexp x = e"
proof -
  from assms(1) pow2_pos[of e] have x: "0 < x" by linarith
  note b = binexp_bounds[OF x]
  from b assms(2) have "pow2 (binexp x) < pow2 (e + 1)" by linarith
  then have "binexp x < e + 1" by (simp add: pow2_less_iff)
  moreover from b assms(1) have "pow2 e < pow2 (binexp x + 1)" by linarith
  then have "e < binexp x + 1" by (simp add: pow2_less_iff)
  ultimately show ?thesis by simp
qed

lemma roundeven_near: "\<bar>of_int (roundeven y) - y\<bar> \<le> 1 / 2"
  unfolding roundeven_def Let_def by (auto simp: abs_if) linarith+

lemma roundeven_of_int: "roundeven (of_int k) = k"
  by (simp add: roundeven_def)


lemma pow2_le_abs_iff: "0 < e \<Longrightarrow> pow2 e \<le> \<bar>r\<bar> \<longleftrightarrow> e \<le> binexp \<bar>r\<bar>"
proof (cases "r = 0")
  case True
  assume "0 < e"
  moreover have "binexp 0 = 0" by (simp add: binexp_def bitlen.simps[of 0])
  ultimately show ?thesis using True pow2_pos[of e] by simp
next
  case False
  then have x: "0 < \<bar>r\<bar>" by simp
  note b = binexp_bounds[OF x]
  show ?thesis
  proof
    assume "pow2 e \<le> \<bar>r\<bar>"
    with b have "pow2 e < pow2 (binexp \<bar>r\<bar> + 1)" by linarith
    then show "e \<le> binexp \<bar>r\<bar>" by (simp add: pow2_less_iff)
  next
    assume "e \<le> binexp \<bar>r\<bar>"
    from pow2_mono[OF this] b show "pow2 e \<le> \<bar>r\<bar>" by linarith
  qed
qed

lemma round64_code [code]:
  "round64 x =
     (if x = 0 then Finite 0
      else
        (let e = max (binexp \<bar>x\<bar>) (- 1022);
             u = pow2 (e - 52);
             r = of_int (roundeven (x / u)) * u
         in if 1024 \<le> binexp \<bar>r\<bar> then (if 0 < x then PosInf else NegInf)
            else Finite r))"
  unfolding round64_def Let_def using pow2_le_abs_iff[of 1024] by simp

lemma round64_normal:
  assumes lo: "pow2 (- 1022) \<le> \<bar>x\<bar>" and hi: "\<bar>x\<bar> < pow2 1023"
  shows "\<exists>v. round64 x = Finite v \<and> \<bar>v - x\<bar> \<le> \<bar>x\<bar> * pow2 (- 53)"
proof -
  from lo pow2_pos[of "- 1022"] have x: "0 < \<bar>x\<bar>" by linarith
  then have x0: "x \<noteq> 0" by simp
  define e where "e = binexp \<bar>x\<bar>"
  note b = binexp_bounds[OF x, folded e_def]
  from b lo have "pow2 (- 1022) < pow2 (e + 1)" by linarith
  then have e1: "- 1022 \<le> e" by (simp add: pow2_less_iff)
  from b hi have "pow2 e < pow2 1023" by linarith
  then have e2: "e < 1023" by (simp add: pow2_less_iff)
  define u where "u = pow2 (e - 52)"
  define r where "r = of_int (roundeven (x / u)) * u"
  have u: "0 < u" by (simp add: u_def pow2_pos)
  have "\<bar>of_int (roundeven (x / u)) - x / u\<bar> \<le> 1 / 2" by (rule roundeven_near)
  then have "\<bar>of_int (roundeven (x / u)) - x / u\<bar> * u \<le> (1 / 2) * u"
    using u by (intro mult_right_mono) simp_all
  moreover have "\<bar>of_int (roundeven (x / u)) - x / u\<bar> * u = \<bar>r - x\<bar>"
  proof -
    have eq: "(of_int (roundeven (x / u)) - x / u) * u = r - x"
      using u by (simp add: r_def field_simps)
    have "\<bar>of_int (roundeven (x / u)) - x / u\<bar> * u =
          \<bar>(of_int (roundeven (x / u)) - x / u) * u\<bar>"
      using u by (simp add: abs_mult)
    then show ?thesis unfolding eq .
  qed
  ultimately have d: "\<bar>r - x\<bar> \<le> u / 2" by simp
  have "pow2 (e - 53) = pow2 (e - 52) * pow2 (- 1)" using pow2_add[of "e - 52" "- 1"] by simp
  also have "pow2 (- 1) = 1 / 2" by (simp add: pow2_def)
  finally have u2: "u / 2 = pow2 (e - 53)" by (simp add: u_def)
  have "pow2 (e - 53) = pow2 e * pow2 (- 53)" using pow2_add[of e "- 53"] by simp
  also have "\<dots> \<le> \<bar>x\<bar> * pow2 (- 53)"
    using b pow2_pos[of "- 53"] by (intro mult_right_mono) simp_all
  finally have rel: "u / 2 \<le> \<bar>x\<bar> * pow2 (- 53)" unfolding u2 .
  have "pow2 (e - 53) \<le> pow2 e" by (rule pow2_mono) simp
  with b u2 have "u / 2 \<le> \<bar>x\<bar>" by linarith
  with d have "\<bar>r\<bar> \<le> 2 * \<bar>x\<bar>" by linarith
  also from b have "\<dots> < 2 * pow2 (e + 1)" by simp
  also have "\<dots> = pow2 (e + 2)"
  proof -
    have p1: "pow2 1 = 2" by (simp add: pow2_def)
    have "e + 2 = e + 1 + 1" by simp
    then have "pow2 (e + 2) = pow2 (e + 1) * pow2 1" by (simp only: pow2_add)
    then show ?thesis unfolding p1 by simp
  qed
  also from e2 have "\<dots> \<le> pow2 1024" by (intro pow2_mono) simp
  finally have nov: "\<not> pow2 1024 \<le> \<bar>r\<bar>" by simp
  from e1 have m: "max e (- 1022) = e" by simp
  have "round64 x = Finite r"
    using x0 nov unfolding round64_def Let_def e_def[symmetric] m u_def[symmetric] r_def[symmetric]
    by simp
  with d rel show ?thesis by (intro exI[of _ r]) simp
qed

lemma round64_of_int:
  assumes "\<bar>n\<bar> < 2 ^ 53"
  shows "round64 (of_int n) = Finite (of_int n)"
proof (cases "n = 0")
  case True
  then show ?thesis by (simp add: round64_def)
next
  case False
  define x :: real where "x = of_int n"
  from False have x1: "1 \<le> \<bar>x\<bar>" unfolding x_def by (metis of_int_abs of_int_1_le_iff abs_ge_zero abs_zero dual_order.antisym int_one_le_iff_zero_less not_le zero_less_abs_iff)
  then have x: "0 < \<bar>x\<bar>" and x0: "x \<noteq> 0" by auto
  from assms have "\<bar>x\<bar> < of_int (2 ^ 53)" unfolding x_def
    by (metis of_int_abs of_int_less_iff)
  then have xh: "\<bar>x\<bar> < pow2 53" by (simp add: pow2_def)
  define e where "e = binexp \<bar>x\<bar>"
  note b = binexp_bounds[OF x, folded e_def]
  have "pow2 0 = 1" by (simp add: pow2_def)
  with b x1 have "pow2 0 < pow2 (e + 1)" by linarith
  then have e1: "0 \<le> e" by (simp add: pow2_less_iff)
  from b xh have "pow2 e < pow2 53" by linarith
  then have e2: "e \<le> 52" by (simp add: pow2_less_iff)
  define k where "k = nat (52 - e)"
  from e2 have ue: "e - 52 = - int k" by (simp add: k_def)
  have u: "pow2 (e - 52) = 1 / 2 ^ k" unfolding ue by (rule pow2_neg_nat)
  have q: "x / pow2 (e - 52) = of_int (n * 2 ^ k)" unfolding u x_def by simp
  have r: "of_int (roundeven (x / pow2 (e - 52))) * pow2 (e - 52) = x"
    unfolding q roundeven_of_int unfolding u x_def by simp
  from xh have "\<bar>x\<bar> < pow2 1024" using pow2_mono[of 53 1024] by simp
  then have nov: "\<not> pow2 1024 \<le> \<bar>x\<bar>" by simp
  from e1 have m: "max e (- 1022) = e" by simp
  have "round64 x = Finite x"
    using x0 nov unfolding round64_def Let_def e_def[symmetric] m r by simp
  then show ?thesis by (simp add: x_def)
qed

lemma float64_of_int_exact: "\<bar>n\<bar> < 2 ^ 53 \<Longrightarrow> float64_of_int n = Finite (of_int n)"
  by (simp add: float64_of_int_def round64_of_int)

lemma percentage_all:
  assumes "0 < n" and "n < 2 ^ 53"
  shows "percentage n n = Finite 100"
proof -
  from assms have "\<bar>n\<bar> < 2 ^ 53" by simp
  then have f: "float64_of_int n = Finite (of_int n)" by (rule float64_of_int_exact)
  have one: "round64 1 = Finite 1" using round64_of_int[of 1] by simp
  have hd: "round64 100 = Finite 100" using round64_of_int[of 100] by simp
  from assms(1) show ?thesis by (simp add: percentage_def f one hd)
qed

lemma percentage_none:
  assumes "0 < n" and "n < 2 ^ 53"
  shows "percentage 0 n = Finite 0"
proof -
  from assms have "\<bar>n\<bar> < 2 ^ 53" by simp
  then have f: "float64_of_int n = Finite (of_int n)" by (rule float64_of_int_exact)
  have z: "float64_of_int 0 = Finite 0" by (simp add: float64_of_int_def round64_def)
  from assms(1) show ?thesis by (simp add: percentage_def f z round64_def)
qed

lemma percentage_accuracy:
  assumes c: "0 < c" "c < 2 ^ 53" and n: "0 < n" "n < 2 ^ 53"
  shows "\<exists>v. percentage c n = Finite v \<and>
             \<bar>v - 100 * of_int c / of_int n\<bar> \<le> (100 * of_int c / of_int n) / 2 ^ 51"
proof -
  define q :: real where "q = of_int c / of_int n"
  define p :: real where "p = pow2 (- 53)"
  have p: "p = 1 / 2 ^ 53" by (simp add: p_def pow2_def)
  from c n have fc: "float64_of_int c = Finite (of_int c)"
    and fn: "float64_of_int n = Finite (of_int n)"
    by (simp_all add: float64_of_int_exact)
  have rc: "1 \<le> real_of_int c" "real_of_int c < 2 ^ 53" using c by simp_all
  have rn: "1 \<le> real_of_int n" "real_of_int n < 2 ^ 53" using n by simp_all
  have q1: "1 / 2 ^ 53 < q"
    unfolding q_def using rc rn by (simp add: field_simps) 
  have q2: "q < 2 ^ 53"
    unfolding q_def using rc rn by (simp add: field_simps) 
  have qpos: "0 < q" using q1 by (simp add: less_trans[OF _ q1])
  have lo1: "pow2 (- 1022) \<le> \<bar>q\<bar>"
  proof -
    have "pow2 (- 1022) \<le> pow2 (- 53)" by (rule pow2_mono) simp
    with q1 qpos show ?thesis by (simp add: p[unfolded p_def])
  qed
  have hi1: "\<bar>q\<bar> < pow2 1023"
  proof -
    have "pow2 53 \<le> pow2 1023" by (rule pow2_mono) simp
    moreover have "pow2 53 = 2 ^ 53" by (simp add: pow2_def)
    ultimately show ?thesis using q2 qpos by simp
  qed
  from round64_normal[OF lo1 hi1] obtain q' where
    q': "round64 q = Finite q'" and d1: "\<bar>q' - q\<bar> \<le> \<bar>q\<bar> * p" unfolding p_def by blast
  from d1 qpos have d1': "\<bar>q' - q\<bar> \<le> q * p" by simp
  have pb: "0 < p" "p \<le> 1 / 2" unfolding p by simp_all
  from d1' pb qpos have q'lo: "q / 2 \<le> q'"
  proof -
    have "q * p \<le> q * (1 / 2)" using pb qpos by (intro mult_left_mono) simp_all
    with d1' show ?thesis by linarith
  qed
  have q'hi: "q' \<le> 2 * q"
  proof -
    have "q * p \<le> q * 1" using pb qpos by (intro mult_left_mono) simp_all
    with d1' show ?thesis by linarith
  qed
  from q'lo qpos have q'pos: "0 < q'" by linarith
  have lo2: "pow2 (- 1022) \<le> \<bar>q' * 100\<bar>"
  proof -
    have "pow2 (- 1022) \<le> pow2 (- 54)" by (rule pow2_mono) simp
    moreover have "pow2 (- 54) = 1 / 2 ^ 54" by (simp add: pow2_def)
    moreover have "1 / 2 ^ 54 \<le> q / 2" using q1 by simp
    ultimately show ?thesis using q'lo q'pos by simp
  qed
  have hi2: "\<bar>q' * 100\<bar> < pow2 1023"
  proof -
    have "pow2 61 \<le> pow2 1023" by (rule pow2_mono) simp
    moreover have "pow2 61 = 2 ^ 61" by (simp add: pow2_def)
    moreover have "q' * 100 < 2 ^ 61" using q'hi q2 by simp
    ultimately show ?thesis using q'pos by simp
  qed
  from round64_normal[OF lo2 hi2] obtain v where
    v: "round64 (q' * 100) = Finite v" and d2: "\<bar>v - q' * 100\<bar> \<le> \<bar>q' * 100\<bar> * p"
    unfolding p_def by blast
  from d2 q'pos have d2': "\<bar>v - q' * 100\<bar> \<le> 100 * q' * p" by (simp add: abs_mult)
  have "percentage c n = Finite v"
    using n(1) by (simp add: percentage_def fc fn q_def[symmetric] q' v)
  moreover have "\<bar>v - 100 * q\<bar> \<le> (100 * q) / 2 ^ 51"
  proof -
    have "v - 100 * q = (v - q' * 100) + 100 * (q' - q)" by simp
    then have "\<bar>v - 100 * q\<bar> \<le> \<bar>v - q' * 100\<bar> + \<bar>100 * (q' - q)\<bar>"
      by (simp only: abs_triangle_ineq)
    also have "\<bar>100 * (q' - q)\<bar> = 100 * \<bar>q' - q\<bar>" by (simp only: abs_mult abs_numeral)
    finally have "\<bar>v - 100 * q\<bar> \<le> \<bar>v - q' * 100\<bar> + 100 * \<bar>q' - q\<bar>" .
    also have "\<dots> \<le> 100 * q' * p + 100 * (q * p)"
      using d2' by (rule add_mono) (use d1' in simp)
    also have "\<dots> \<le> 100 * (2 * q) * p + 100 * (q * p)"
      using q'hi pb by (simp add: mult_right_mono)
    also have "\<dots> = (100 * q) * (3 * p)" by simp
    also have "\<dots> \<le> (100 * q) * (1 / 2 ^ 51)"
      using qpos unfolding p by (intro mult_left_mono) simp_all
    finally show ?thesis by simp
  qed
  ultimately show ?thesis unfolding q_def by (intro exI[of _ v]) simp
qed

section \<open>Pruning\<close>

lemma removeFrontRequest_requests: "requests (removeFrontRequest cb) = tl (requests cb)"
  by (simp add: removeFrontRequest_def split: list.splits)

lemma removeFrontRequest_fields:
  "config (removeFrontRequest cb) = config cb"
  "state (removeFrontRequest cb) = state cb"
  "halfOpenCalls (removeFrontRequest cb) = halfOpenCalls cb"
  "lastFailureTime (removeFrontRequest cb) = lastFailureTime cb"
  by (simp_all add: removeFrontRequest_def split: list.splits)

lemma removeFrontRequest_exact: "exactCounters cb \<Longrightarrow> exactCounters (removeFrontRequest cb)"
  by (auto simp: removeFrontRequest_def exactCounters_def split: list.splits)

lemma enforceCountBasedWindow_exact:
  assumes "enforceCountBasedWindow cb = Some cb'" and "exactCounters cb"
  shows "exactCounters cb'"
proof -
  have "exactCounters cb \<longrightarrow> exactCounters cb'"
    by (rule enforceCountBasedWindow.raw_induct
          [where P = "\<lambda>x y. exactCounters x \<longrightarrow> exactCounters y", OF _ assms(1)])
       (auto split: if_splits intro: removeFrontRequest_exact)
  with assms(2) show ?thesis by simp
qed

text \<open>What a returning count-based pruning leaves: a suffix of the window that is
  shorter than the configured size; nothing but the window and the counters changes.\<close>

lemma enforceCountBasedWindow_result:
  assumes "enforceCountBasedWindow cb = Some cb'"
  shows "int (length (requests cb')) < SlidingWindowSize (config cb) \<and>
         (\<exists>k. requests cb' = drop k (requests cb)) \<and>
         config cb' = config cb \<and> state cb' = state cb \<and>
         halfOpenCalls cb' = halfOpenCalls cb \<and> lastFailureTime cb' = lastFailureTime cb"
proof (rule enforceCountBasedWindow.raw_induct
          [where P = "\<lambda>x y. int (length (requests y)) < SlidingWindowSize (config x) \<and>
             (\<exists>k. requests y = drop k (requests x)) \<and>
             config y = config x \<and> state y = state x \<and>
             halfOpenCalls y = halfOpenCalls x \<and> lastFailureTime y = lastFailureTime x",
           OF _ assms])
  fix loop :: "CircuitBreaker \<Rightarrow> CircuitBreaker option" and x y
  assume IH: "\<And>x y. loop x = Some y \<Longrightarrow>
             int (length (requests y)) < SlidingWindowSize (config x) \<and>
             (\<exists>k. requests y = drop k (requests x)) \<and>
             config y = config x \<and> state y = state x \<and>
             halfOpenCalls y = halfOpenCalls x \<and> lastFailureTime y = lastFailureTime x"
    and step: "(if SlidingWindowSize (config x) \<le> int (length (requests x))
           then if requests x \<noteq> [] then loop (removeFrontRequest x) else loop x
           else Some x) = Some y"
  show "int (length (requests y)) < SlidingWindowSize (config x) \<and>
             (\<exists>k. requests y = drop k (requests x)) \<and>
             config y = config x \<and> state y = state x \<and>
             halfOpenCalls y = halfOpenCalls x \<and> lastFailureTime y = lastFailureTime x"
  proof (cases "SlidingWindowSize (config x) \<le> int (length (requests x))")
    case False
    with step have "y = x" by simp
    with False show ?thesis by (auto intro: exI[of _ 0])
  next
    case True
    show ?thesis
    proof (cases "requests x = []")
      case True
      with \<open>SlidingWindowSize (config x) \<le> int (length (requests x))\<close> step
      have "loop x = Some y" by simp
      from IH[OF this] show ?thesis .
    next
      case False
      with True step have "loop (removeFrontRequest x) = Some y" by simp
      from IH[OF this] obtain k where
        k: "requests y = drop k (tl (requests x))" and
        rest: "int (length (requests y)) < SlidingWindowSize (config x)"
          "config y = config x" "state y = state x"
          "halfOpenCalls y = halfOpenCalls x" "lastFailureTime y = lastFailureTime x"
        by (auto simp: removeFrontRequest_requests removeFrontRequest_fields)
      from k have "requests y = drop (Suc k) (requests x)"
        by (simp add: drop_Suc)
      with rest show ?thesis by blast
    qed
  qed
qed

lemma enforceCountBasedWindow_never_returns:
  "SlidingWindowSize (config cb) \<le> 0 \<Longrightarrow> enforceCountBasedWindow cb = None"
proof (cases "enforceCountBasedWindow cb")
  case None then show ?thesis .
next
  case (Some cb')
  assume "SlidingWindowSize (config cb) \<le> 0"
  with enforceCountBasedWindow_result[OF Some] show ?thesis by simp
qed

lemma enforceTimeBasedLoop_Nil:
  "requests cb = [] \<Longrightarrow> enforceTimeBasedLoop cb t = cb"
  by (subst enforceTimeBasedLoop.simps) simp

lemma enforceTimeBasedLoop_Cons:
  "requests cb = e # es \<Longrightarrow>
   enforceTimeBasedLoop cb t =
     (if \<not> (executionTime e < t) then cb else enforceTimeBasedLoop (removeFrontRequest cb) t)"
  by (subst enforceTimeBasedLoop.simps) simp

lemma enforceTimeBasedLoop_exact:
  "exactCounters cb \<Longrightarrow> exactCounters (enforceTimeBasedLoop cb t)"
proof (induction cb t rule: enforceTimeBasedLoop.induct)
  case (1 cb t)
  then show ?case
    by (cases "requests cb")
       (auto simp: enforceTimeBasedLoop_Nil enforceTimeBasedLoop_Cons
             intro: removeFrontRequest_exact)
qed

lemma enforceTimeBasedLoop_requests:
  "requests (enforceTimeBasedLoop cb t) = dropWhile (\<lambda>e. executionTime e < t) (requests cb)"
proof (induction cb t rule: enforceTimeBasedLoop.induct)
  case (1 cb t)
  then show ?case
    by (cases "requests cb")
       (auto simp: enforceTimeBasedLoop_Nil enforceTimeBasedLoop_Cons removeFrontRequest_requests)
qed

lemma enforceTimeBasedLoop_fields:
  "config (enforceTimeBasedLoop cb t) = config cb \<and>
   state (enforceTimeBasedLoop cb t) = state cb \<and>
   halfOpenCalls (enforceTimeBasedLoop cb t) = halfOpenCalls cb \<and>
   lastFailureTime (enforceTimeBasedLoop cb t) = lastFailureTime cb"
proof (induction cb t rule: enforceTimeBasedLoop.induct)
  case (1 cb t)
  then show ?case
    by (cases "requests cb")
       (auto simp: enforceTimeBasedLoop_Nil enforceTimeBasedLoop_Cons removeFrontRequest_fields)
qed

section \<open>The counters through insertion, recording and execution\<close>

lemma cleanupOldRequests_exact:
  "cleanupOldRequests cb now = Some cb' \<Longrightarrow> exactCounters cb \<Longrightarrow> exactCounters cb'"
  by (auto simp: cleanupOldRequests_def enforceTimeBasedWindow_def
           split: if_splits
           intro: enforceCountBasedWindow_exact enforceTimeBasedLoop_exact)

lemma addRequest_exact:
  "addRequest cb f s tp tq = Some cb' \<Longrightarrow> exactCounters cb \<Longrightarrow> exactCounters cb'"
proof -
  assume a: "addRequest cb f s tp tq = Some cb'" and e: "exactCounters cb"
  from a obtain cb1 where c: "cleanupOldRequests cb tp = Some cb1"
    by (auto simp: addRequest_def split: option.splits)
  from cleanupOldRequests_exact[OF c e] have "exactCounters cb1" .
  with a c show ?thesis
    by (auto simp: addRequest_def exactCounters_def Let_def)
qed

text \<open>The transition switch leaves the window, the counters and the configuration as
  \<open>addRequest\<close> produced them.\<close>

lemma recordResult_window:
  assumes "recordResult cb err isSlow tp tq te = Some (Inr cb')"
  shows "\<exists>cb1. addRequest cb (err \<noteq> None) isSlow tp tq = Some cb1 \<and>
           requests cb' = requests cb1 \<and> failureCount cb' = failureCount cb1 \<and>
           slowCallCount cb' = slowCallCount cb1 \<and> config cb' = config cb1"
  using assms
  by (auto simp: recordResult_def SetState_def Let_def
           split: option.splits State.splits if_splits)

lemma recordResult_exact:
  assumes "recordResult cb err isSlow tp tq te = Some (Inr cb')" and "exactCounters cb"
  shows "exactCounters cb'"
proof -
  from recordResult_window[OF assms(1)] obtain cb1 where
    a: "addRequest cb (err \<noteq> None) isSlow tp tq = Some cb1" and
    w: "requests cb' = requests cb1" "failureCount cb' = failureCount cb1"
       "slowCallCount cb' = slowCallCount cb1"
    by blast
  from addRequest_exact[OF a assms(2)] w show ?thesis
    by (simp add: exactCounters_def)
qed

text \<open>The admission check touches the state and the half-open count only.\<close>

lemma preAdmission_Rejected_fields:
  assumes "preAdmission cb now = Rejected e cb1"
  shows "requests cb1 = requests cb \<and> failureCount cb1 = failureCount cb \<and>
         slowCallCount cb1 = slowCallCount cb \<and> lastFailureTime cb1 = lastFailureTime cb \<and>
         config cb1 = config cb"
  using assms
  by (auto simp: preAdmission_def SetState_def Let_def split: if_splits)

lemma preAdmission_Admitted_fields:
  assumes "preAdmission cb now = Admitted cb1"
  shows "requests cb1 = requests cb \<and> failureCount cb1 = failureCount cb \<and>
         slowCallCount cb1 = slowCallCount cb \<and> lastFailureTime cb1 = lastFailureTime cb \<and>
         config cb1 = config cb"
  using assms
  by (auto simp: preAdmission_def SetState_def Let_def split: if_splits)

lemma Execute_exact:
  assumes "Execute cb call = Some (Inr r)" and "exactCounters cb"
  shows "exactCounters (breaker r)"
proof (cases "preAdmission cb (now_admit call)")
  case (Rejected e cb1)
  with assms(1) have "breaker r = cb1" by (auto simp: Execute_def)
  with preAdmission_Rejected_fields[OF Rejected] assms(2) show ?thesis
    by (simp add: exactCounters_def)
next
  case (Admitted cb1)
  from preAdmission_Admitted_fields[OF Admitted] assms(2) have e1: "exactCounters cb1"
    by (simp add: exactCounters_def)
  from assms(1) Admitted have
    "recordResult cb1 (action_err call)
       (SlowCallDurationThreshold (config cb1) \<le> action_duration call)
       (now_prune call) (now_push call) (now_eval call) = Some (Inr (breaker r))"
    by (auto simp: Execute_def Let_def split: option.splits sum.splits)
  from recordResult_exact[OF this e1] show ?thesis .
qed

lemma run_exact:
  "run cb calls = Some (Inr cb') \<Longrightarrow> exactCounters cb \<Longrightarrow> exactCounters cb'"
proof (induction calls arbitrary: cb)
  case Nil
  then show ?case by simp
next
  case (Cons call calls)
  from Cons.prems(1) obtain r where
    e: "Execute cb call = Some (Inr r)" and r: "run (breaker r) calls = Some (Inr cb')"
    by (auto split: option.splits sum.splits)
  from Execute_exact[OF e Cons.prems(2)] have "exactCounters (breaker r)" .
  from Cons.IH[OF r this] show ?case .
qed

lemma NewCircuitBreaker_exact: "exactCounters (NewCircuitBreaker c)"
  by (simp add: NewCircuitBreaker_def exactCounters_def)

lemma removeFrontRequest_decrements:
  assumes "requests cb = entry # rest"
  shows "requests (removeFrontRequest cb) = rest \<and>
         failureCount (removeFrontRequest cb) = failureCount cb - (if failed entry then 1 else 0) \<and>
         slowCallCount (removeFrontRequest cb) =
           slowCallCount cb - (if slow entry \<and> \<not> failed entry then 1 else 0)"
  using assms by (simp add: removeFrontRequest_def)

text \<open>
  C4. In every state a new breaker reaches through a sequence of \<open>Execute\<close> calls,
  \<open>failureCount\<close> is the number of window records with \<open>failed\<close> set and \<open>slowCallCount\<close> the
  number of records that are slow and not failed, as a linear scan of the window finds
  them. A further removal or insertion keeps both exact, and removing the front record
  takes one off the counter that record was counted in and leaves the other unchanged.
\<close>

theorem C4_counters_exact:
  assumes "run (NewCircuitBreaker c) calls = Some (Inr cb)"
  shows "exactCounters cb \<and>
         exactCounters (removeFrontRequest cb) \<and>
         (\<forall>entry rest. requests cb = entry # rest \<longrightarrow>
            requests (removeFrontRequest cb) = rest \<and>
            failureCount (removeFrontRequest cb) =
              failureCount cb - (if failed entry then 1 else 0) \<and>
            slowCallCount (removeFrontRequest cb) =
              slowCallCount cb - (if slow entry \<and> \<not> failed entry then 1 else 0)) \<and>
         (\<forall>f s tp tq cb'. addRequest cb f s tp tq = Some cb' \<longrightarrow> exactCounters cb')"
proof -
  from run_exact[OF assms NewCircuitBreaker_exact] have e: "exactCounters cb" .
  moreover from e have "exactCounters (removeFrontRequest cb)"
    by (rule removeFrontRequest_exact)
  moreover have "\<forall>entry rest. requests cb = entry # rest \<longrightarrow>
            requests (removeFrontRequest cb) = rest \<and>
            failureCount (removeFrontRequest cb) =
              failureCount cb - (if failed entry then 1 else 0) \<and>
            slowCallCount (removeFrontRequest cb) =
              slowCallCount cb - (if slow entry \<and> \<not> failed entry then 1 else 0)"
    using removeFrontRequest_decrements by blast
  moreover from e have "\<forall>f s tp tq cb'. addRequest cb f s tp tq = Some cb' \<longrightarrow> exactCounters cb'"
    using addRequest_exact by blast
  ultimately show ?thesis by blast
qed

lemma run_example_returns:
  "(case run (NewCircuitBreaker testConfig) [failingCall 0, succeedingCall 5, failingCall 9] of
      Some (Inr cb) \<Rightarrow> requests cb \<noteq> [] | _ \<Rightarrow> False)"
  by code_simp

theorem C4_counters_exact_witness:
  "\<exists>cb. run (NewCircuitBreaker testConfig) [failingCall 0, succeedingCall 5, failingCall 9]
           = Some (Inr cb) \<and>
        exactCounters cb \<and> exactCounters (removeFrontRequest cb) \<and>
        requests (removeFrontRequest cb) = tl (requests cb) \<and> requests cb \<noteq> []"
proof -
  from run_example_returns obtain cb where
    r: "run (NewCircuitBreaker testConfig) [failingCall 0, succeedingCall 5, failingCall 9]
          = Some (Inr cb)" and ne: "requests cb \<noteq> []"
    by (auto split: option.splits sum.splits)
  from ne obtain entry rest where "requests cb = entry # rest"
    by (cases "requests cb") auto
  with C4_counters_exact[OF r] r ne show ?thesis by auto
qed

section \<open>Rate computation\<close>

lemma failuresLoop_count:
  "failuresLoop es n = n + int (length (filter failed_scan es))"
  by (induction es arbitrary: n) auto

lemma slowCallsLoop_count:
  "slowCallsLoop es n = n + int (length (filter (\<lambda>e. slow_scan e \<and> \<not> failed_scan e) es))"
  by (induction es arbitrary: n) auto

lemma getFailureRate_eq:
  "getFailureRate cb =
     (if requests cb = [] then Finite 0
      else percentage (failureCount cb) (int (length (requests cb))))"
  by (simp add: getFailureRate_def percentage_def)

lemma getSlowCallRate_eq:
  "getSlowCallRate cb =
     (if requests cb = [] then Finite 0
      else percentage (slowCallCount cb) (int (length (requests cb))))"
  by (simp add: getSlowCallRate_def percentage_def)

lemma getFailureRate_scan_eq:
  "getFailureRate_scan cbs =
     (if requests_scan cbs = [] then Finite 0
      else percentage (int (length (filter failed_scan (requests_scan cbs))))
             (int (length (requests_scan cbs))))"
  by (simp add: getFailureRate_scan_def percentage_def failuresLoop_count)

lemma getSlowCallRate_scan_eq:
  "getSlowCallRate_scan cbs =
     (if requests_scan cbs = [] then Finite 0
      else percentage
             (int (length (filter (\<lambda>e. slow_scan e \<and> \<not> failed_scan e) (requests_scan cbs))))
             (int (length (requests_scan cbs))))"
  by (simp add: getSlowCallRate_scan_def percentage_def slowCallsLoop_count)

lemma percentage_empty: "percentage 0 0 = NaN"
  by (simp add: percentage_def float64_of_int_def round64_def)

text \<open>
  C7, as the code has it. The rates are \<^verbatim>\<open>float64\<close> values, each operation rounded: for
  one failed call out of three the failure rate is \<open>4691249611844266 / 2 ^ 47\<close>
  (33.33333333333333), below \<open>100 * 1 / 3\<close>; and because the code divides before it
  multiplies, 29 failed calls out of 50 give \<open>8162774324609023 / 2 ^ 47\<close>
  (57.99999999999999), below \<open>100 * 29 / 50 = 58\<close>.
\<close>

theorem C7_rates_counterexample:
  "getFailureRate_scan oneOfThree_scan = Finite (4691249611844266 / 2 ^ 47) \<and>
   (4691249611844266 / 2 ^ 47 :: real) < 100 * 1 / 3 \<and>
   length (requests_scan (addRequest_scan twentyEightOfFortyNine_scan True False)) = 50 \<and>
   length (filter failed_scan
     (requests_scan (addRequest_scan twentyEightOfFortyNine_scan True False))) = 29 \<and>
   getFailureRate_scan (addRequest_scan twentyEightOfFortyNine_scan True False) =
     Finite (8162774324609023 / 2 ^ 47) \<and>
   (8162774324609023 / 2 ^ 47 :: real) < 100 * 29 / 50"
  by code_simp

text \<open>
  C7, amended. Both engines return \<open>0\<close> for an empty window without dividing (the
  division itself would give NaN there) and otherwise the \<^verbatim>\<open>float64\<close> value of
  \<^verbatim>\<open>(float64(count) / float64(windowLength)) * 100\<close>. In \<^verbatim>\<open>circuitbreaker.go\<close> the counts
  come from a scan: the failed records, and the records that are slow and not failed. In
  the engine with counters they are \<open>failureCount\<close> and \<open>slowCallCount\<close>, which for exact
  counters are the same numbers. An empty window yields 0 for both rates, also right
  after pruning. For a count \<open>k\<close> and a window length \<open>n\<close> below \<open>2 ^ 53\<close> the value is
  finite and differs from \<open>100 * k / n\<close> by at most that quotient times \<open>2 ^ -51\<close>; it is
  exactly 0 for no record and exactly 100 for all records of the window.
\<close>

theorem C7_rates:
  "getFailureRate_scan cbs =
     (if requests_scan cbs = [] then Finite 0
      else percentage (int (length (filter failed_scan (requests_scan cbs))))
             (int (length (requests_scan cbs)))) \<and>
   getSlowCallRate_scan cbs =
     (if requests_scan cbs = [] then Finite 0
      else percentage
             (int (length (filter (\<lambda>e. slow_scan e \<and> \<not> failed_scan e) (requests_scan cbs))))
             (int (length (requests_scan cbs)))) \<and>
   getFailureRate cb =
     (if requests cb = [] then Finite 0
      else percentage (failureCount cb) (int (length (requests cb)))) \<and>
   getSlowCallRate cb =
     (if requests cb = [] then Finite 0
      else percentage (slowCallCount cb) (int (length (requests cb)))) \<and>
   (exactCounters cb \<longrightarrow>
      getFailureRate cb =
        (if requests cb = [] then Finite 0
         else percentage (int (length (filter failed (requests cb))))
                (int (length (requests cb)))) \<and>
      getSlowCallRate cb =
        (if requests cb = [] then Finite 0
         else percentage (int (length (filter (\<lambda>e. slow e \<and> \<not> failed e) (requests cb))))
                (int (length (requests cb))))) \<and>
   (requests (enforceTimeBasedWindow cb now) = [] \<longrightarrow>
      getFailureRate (enforceTimeBasedWindow cb now) = Finite 0 \<and>
      getSlowCallRate (enforceTimeBasedWindow cb now) = Finite 0) \<and>
   percentage 0 0 = NaN \<and>
   (0 < n \<and> n < 2 ^ 53 \<longrightarrow>
      percentage 0 n = Finite 0 \<and> percentage n n = Finite 100 \<and>
      (0 < k \<and> k < 2 ^ 53 \<longrightarrow>
         (\<exists>v. percentage k n = Finite v \<and>
              \<bar>v - 100 * of_int k / of_int n\<bar> \<le> (100 * of_int k / of_int n) / 2 ^ 51)))"
proof (intro conjI impI)
  show "getFailureRate_scan cbs =
     (if requests_scan cbs = [] then Finite 0
      else percentage (int (length (filter failed_scan (requests_scan cbs))))
             (int (length (requests_scan cbs))))"
    by (rule getFailureRate_scan_eq)
  show "getSlowCallRate_scan cbs =
     (if requests_scan cbs = [] then Finite 0
      else percentage
             (int (length (filter (\<lambda>e. slow_scan e \<and> \<not> failed_scan e) (requests_scan cbs))))
             (int (length (requests_scan cbs))))"
    by (rule getSlowCallRate_scan_eq)
  show "getFailureRate cb =
     (if requests cb = [] then Finite 0
      else percentage (failureCount cb) (int (length (requests cb))))"
    by (rule getFailureRate_eq)
  show "getSlowCallRate cb =
     (if requests cb = [] then Finite 0
      else percentage (slowCallCount cb) (int (length (requests cb))))"
    by (rule getSlowCallRate_eq)
  show "percentage 0 0 = NaN" by (rule percentage_empty)
next
  assume "exactCounters cb"
  then show "getFailureRate cb =
        (if requests cb = [] then Finite 0
         else percentage (int (length (filter failed (requests cb))))
                (int (length (requests cb))))"
    and "getSlowCallRate cb =
        (if requests cb = [] then Finite 0
         else percentage (int (length (filter (\<lambda>e. slow e \<and> \<not> failed e) (requests cb))))
                (int (length (requests cb))))"
    by (simp_all add: getFailureRate_eq getSlowCallRate_eq exactCounters_def)
next
  assume "requests (enforceTimeBasedWindow cb now) = []"
  then show "getFailureRate (enforceTimeBasedWindow cb now) = Finite 0"
    and "getSlowCallRate (enforceTimeBasedWindow cb now) = Finite 0"
    by (simp_all add: getFailureRate_eq getSlowCallRate_eq)
next
  assume n: "0 < n \<and> n < 2 ^ 53"
  then show "percentage 0 n = Finite 0" by (simp add: percentage_none)
  from n show "percentage n n = Finite 100" by (simp add: percentage_all)
  assume k: "0 < k \<and> k < 2 ^ 53"
  from k n have "0 < k" "k < 2 ^ 53" "0 < n" "n < 2 ^ 53" by simp_all
  then show "\<exists>v. percentage k n = Finite v \<and>
              \<bar>v - 100 * of_int k / of_int n\<bar> \<le> (100 * of_int k / of_int n) / 2 ^ 51"
    by (rule percentage_accuracy)
qed

lemma expiredWindow_pruned: "requests (enforceTimeBasedWindow expiredWindow 5000) = []"
  by code_simp

lemma quarter_and_half: "percentage 1 4 = Finite 25 \<and> percentage 2 4 = Finite 50"
  by code_simp

theorem C7_rates_witness:
  "exactCounters expiredWindow \<and>
   getFailureRate expiredWindow = Finite 25 \<and> getSlowCallRate expiredWindow = Finite 50 \<and>
   requests (enforceTimeBasedWindow expiredWindow 5000) = [] \<and>
   getFailureRate (enforceTimeBasedWindow expiredWindow 5000) = Finite 0 \<and>
   getSlowCallRate (enforceTimeBasedWindow expiredWindow 5000) = Finite 0 \<and>
   percentage 3 3 = Finite 100 \<and>
   (\<exists>v. percentage 1 3 = Finite v \<and> \<bar>v - 100 * 1 / 3\<bar> \<le> (100 * 1 / 3) / 2 ^ 51)"
proof -
  have e: "exactCounters expiredWindow"
    by (simp add: exactCounters_def expiredWindow_def)
  have r: "requests expiredWindow \<noteq> []" "length (requests expiredWindow) = 4"
    "length (filter failed (requests expiredWindow)) = 1"
    "length (filter (\<lambda>e. slow e \<and> \<not> failed e) (requests expiredWindow)) = 2"
    by (simp_all add: expiredWindow_def)
  note c7 = C7_rates[of "NewCircuitBreaker_scan testConfig" expiredWindow 5000 3 1]
  from c7 e have
    "getFailureRate expiredWindow =
       (if requests expiredWindow = [] then Finite 0
        else percentage (int (length (filter failed (requests expiredWindow))))
               (int (length (requests expiredWindow))))"
    "getSlowCallRate expiredWindow =
       (if requests expiredWindow = [] then Finite 0
        else percentage
               (int (length (filter (\<lambda>e. slow e \<and> \<not> failed e) (requests expiredWindow))))
               (int (length (requests expiredWindow))))"
    by (elim conjE, simp)+
  with r quarter_and_half have
    a: "getFailureRate expiredWindow = Finite 25" "getSlowCallRate expiredWindow = Finite 50"
    by simp_all
  from c7 expiredWindow_pruned have
    b: "getFailureRate (enforceTimeBasedWindow expiredWindow 5000) = Finite 0"
       "getSlowCallRate (enforceTimeBasedWindow expiredWindow 5000) = Finite 0"
    by (elim conjE, simp)+
  from c7 have
    c: "percentage 3 3 = Finite 100"
       "\<exists>v. percentage 1 3 = Finite v \<and> \<bar>v - 100 * 1 / 3\<bar> \<le> (100 * 1 / 3) / 2 ^ 51"
    by (elim conjE, simp)+
  from e a b c expiredWindow_pruned show ?thesis by (intro conjI)
qed

section \<open>Admission\<close>

text \<open>
  C1. The admission check of \<open>Execute\<close>, in both engines, for a breaker whose state
  pointer is set:
  \<^item> Open, and the time since \<open>lastFailureTime\<close> is at least \<open>WaitDurationInOpenState\<close>:
    the breaker becomes Half-Open with \<open>halfOpenCalls = 0\<close>, and the Half-Open step then
    decides on that count: the call is admitted with \<open>halfOpenCalls = 1\<close> when the quota
    is positive, and rejected with the half-open error otherwise;
  \<^item> Open, and the wait has not elapsed: rejected with the open-state error, breaker
    unchanged;
  \<^item> Half-Open with \<open>halfOpenCalls \<ge> PermittedNumberOfCallsInHalfOpenState\<close>: rejected
    with the half-open error; otherwise \<open>halfOpenCalls\<close> is incremented and the call is
    admitted;
  \<^item> Closed: admitted, breaker unchanged.
  A rejected call returns its error without invoking the action; an admitted call that
  returns has invoked it.
\<close>

theorem C1_admission_order:
  "(state cb = Some Open \<and>
      WaitDurationInOpenState (config cb) \<le> now - lastFailureTime cb \<and>
      0 < PermittedNumberOfCallsInHalfOpenState (config cb) \<longrightarrow>
      preAdmission cb now = Admitted (cb\<lparr>state := Some HalfOpen, halfOpenCalls := 1\<rparr>)) \<and>
   (state cb = Some Open \<and>
      WaitDurationInOpenState (config cb) \<le> now - lastFailureTime cb \<and>
      PermittedNumberOfCallsInHalfOpenState (config cb) \<le> 0 \<longrightarrow>
      preAdmission cb now =
        Rejected (rejectedHalfOpenLimit (config cb)) (cb\<lparr>state := Some HalfOpen, halfOpenCalls := 0\<rparr>)) \<and>
   (state cb = Some Open \<and>
      now - lastFailureTime cb < WaitDurationInOpenState (config cb) \<longrightarrow>
      preAdmission cb now = Rejected (rejectedOpen (config cb)) cb) \<and>
   (state cb = Some HalfOpen \<and>
      PermittedNumberOfCallsInHalfOpenState (config cb) \<le> halfOpenCalls cb \<longrightarrow>
      preAdmission cb now = Rejected (rejectedHalfOpenLimit (config cb)) cb) \<and>
   (state cb = Some HalfOpen \<and>
      halfOpenCalls cb < PermittedNumberOfCallsInHalfOpenState (config cb) \<longrightarrow>
      preAdmission cb now = Admitted (cb\<lparr>halfOpenCalls := halfOpenCalls cb + 1\<rparr>)) \<and>
   (state cb = Some Closed \<longrightarrow> preAdmission cb now = Admitted cb) \<and>
   (\<forall>msg cb1. preAdmission cb (now_admit call) = Rejected msg cb1 \<longrightarrow>
      Execute cb call =
        Some (Inr \<lparr>returned = Some (errors_New msg), invoked = False, breaker = cb1\<rparr>)) \<and>
   (\<forall>cb1 r. preAdmission cb (now_admit call) = Admitted cb1 \<and>
      Execute cb call = Some (Inr r) \<longrightarrow> invoked r) \<and>
   (state_scan cbs = Some Open \<and>
      WaitDurationInOpenState (config_scan cbs) \<le> now - lastFailureTime_scan cbs \<and>
      0 < PermittedNumberOfCallsInHalfOpenState (config_scan cbs) \<longrightarrow>
      preAdmission_scan cbs now =
        Admitted_scan (cbs\<lparr>state_scan := Some HalfOpen, halfOpenCalls_scan := 1\<rparr>)) \<and>
   (state_scan cbs = Some Open \<and>
      WaitDurationInOpenState (config_scan cbs) \<le> now - lastFailureTime_scan cbs \<and>
      PermittedNumberOfCallsInHalfOpenState (config_scan cbs) \<le> 0 \<longrightarrow>
      preAdmission_scan cbs now =
        Rejected_scan (rejectedHalfOpenLimit (config_scan cbs))
          (cbs\<lparr>state_scan := Some HalfOpen, halfOpenCalls_scan := 0\<rparr>)) \<and>
   (state_scan cbs = Some Open \<and>
      now - lastFailureTime_scan cbs < WaitDurationInOpenState (config_scan cbs) \<longrightarrow>
      preAdmission_scan cbs now = Rejected_scan (rejectedOpen (config_scan cbs)) cbs) \<and>
   (state_scan cbs = Some HalfOpen \<and>
      PermittedNumberOfCallsInHalfOpenState (config_scan cbs) \<le> halfOpenCalls_scan cbs \<longrightarrow>
      preAdmission_scan cbs now = Rejected_scan (rejectedHalfOpenLimit (config_scan cbs)) cbs) \<and>
   (state_scan cbs = Some HalfOpen \<and>
      halfOpenCalls_scan cbs < PermittedNumberOfCallsInHalfOpenState (config_scan cbs) \<longrightarrow>
      preAdmission_scan cbs now =
        Admitted_scan (cbs\<lparr>halfOpenCalls_scan := halfOpenCalls_scan cbs + 1\<rparr>)) \<and>
   (state_scan cbs = Some Closed \<longrightarrow> preAdmission_scan cbs now = Admitted_scan cbs) \<and>
   (\<forall>msg cb1. preAdmission_scan cbs (now_admit call) = Rejected_scan msg cb1 \<longrightarrow>
      Execute_scan cbs call =
        Inr \<lparr>returned_scan = Some (errors_New msg), invoked_scan = False, breaker_scan = cb1\<rparr>) \<and>
   (\<forall>cb1 r. preAdmission_scan cbs (now_admit call) = Admitted_scan cb1 \<and>
      Execute_scan cbs call = Inr r \<longrightarrow> invoked_scan r)"
  apply (intro conjI)
  subgoal by (simp add: preAdmission_def IsOpen_def IsHalfOpen_def SetState_def)
  subgoal by (simp add: preAdmission_def IsOpen_def IsHalfOpen_def SetState_def rejectedHalfOpenLimit_def)
  subgoal by (simp add: preAdmission_def IsOpen_def IsHalfOpen_def SetState_def rejectedOpen_def)
  subgoal by (simp add: preAdmission_def IsOpen_def IsHalfOpen_def SetState_def rejectedHalfOpenLimit_def)
  subgoal by (simp add: preAdmission_def IsOpen_def IsHalfOpen_def SetState_def)
  subgoal by (simp add: preAdmission_def IsOpen_def IsHalfOpen_def SetState_def)
  subgoal by (simp add: Execute_def)
  subgoal by (auto simp: Execute_def Let_def split: option.splits sum.splits)
  subgoal by (simp add: preAdmission_scan_def IsOpen_scan_def IsHalfOpen_scan_def SetState_scan_def)
  subgoal by (simp add: preAdmission_scan_def IsOpen_scan_def IsHalfOpen_scan_def SetState_scan_def rejectedHalfOpenLimit_def)
  subgoal by (simp add: preAdmission_scan_def IsOpen_scan_def IsHalfOpen_scan_def SetState_scan_def rejectedOpen_def)
  subgoal by (simp add: preAdmission_scan_def IsOpen_scan_def IsHalfOpen_scan_def SetState_scan_def rejectedHalfOpenLimit_def)
  subgoal by (simp add: preAdmission_scan_def IsOpen_scan_def IsHalfOpen_scan_def SetState_scan_def)
  subgoal by (simp add: preAdmission_scan_def IsOpen_scan_def IsHalfOpen_scan_def SetState_scan_def)
  subgoal by (simp add: Execute_scan_def)
  subgoal by (auto simp: Execute_scan_def Let_def split: sum.splits)
  done

theorem C1_admission_order_witness:
  "preAdmission openBreaker 2000001000 =
     Admitted (openBreaker\<lparr>state := Some HalfOpen, halfOpenCalls := 1\<rparr>) \<and>
   preAdmission openBreaker 1500 = Rejected (rejectedOpen testConfig) openBreaker \<and>
   Execute openBreaker (failingCall 1500) =
     Some (Inr \<lparr>returned = Some (errors_New (rejectedOpen testConfig)), invoked = False,
                breaker = openBreaker\<rparr>) \<and>
   preAdmission (openBreaker\<lparr>state := Some HalfOpen, halfOpenCalls := 3\<rparr>) 1500 =
     Rejected (rejectedHalfOpenLimit testConfig)
       (openBreaker\<lparr>state := Some HalfOpen, halfOpenCalls := 3\<rparr>) \<and>
   preAdmission_scan openBreaker_scan 2000001000 =
     Admitted_scan (openBreaker_scan\<lparr>state_scan := Some HalfOpen, halfOpenCalls_scan := 1\<rparr>) \<and>
   preAdmission_scan (openBreaker_scan\<lparr>state_scan := Some Closed\<rparr>) 1500 =
     Admitted_scan (openBreaker_scan\<lparr>state_scan := Some Closed\<rparr>)"
proof -
  have h1: "state openBreaker = Some Open \<and>
      WaitDurationInOpenState (config openBreaker) \<le> 2000001000 - lastFailureTime openBreaker \<and>
      0 < PermittedNumberOfCallsInHalfOpenState (config openBreaker)"
    by (simp add: openBreaker_def testConfig_def)
  have h2: "state openBreaker = Some Open \<and>
      1500 - lastFailureTime openBreaker < WaitDurationInOpenState (config openBreaker)"
    by (simp add: openBreaker_def testConfig_def)
  have h3: "state (openBreaker\<lparr>state := Some HalfOpen, halfOpenCalls := 3\<rparr>) = Some HalfOpen \<and>
      PermittedNumberOfCallsInHalfOpenState
          (config (openBreaker\<lparr>state := Some HalfOpen, halfOpenCalls := 3\<rparr>))
        \<le> halfOpenCalls (openBreaker\<lparr>state := Some HalfOpen, halfOpenCalls := 3\<rparr>)"
    by (simp add: openBreaker_def testConfig_def)
  have h4: "state_scan openBreaker_scan = Some Open \<and>
      WaitDurationInOpenState (config_scan openBreaker_scan)
        \<le> 2000001000 - lastFailureTime_scan openBreaker_scan \<and>
      0 < PermittedNumberOfCallsInHalfOpenState (config_scan openBreaker_scan)"
    by (simp add: openBreaker_scan_def testConfig_def)
  have h5: "state_scan (openBreaker_scan\<lparr>state_scan := Some Closed\<rparr>) = Some Closed"
    by simp
  have c: "config openBreaker = testConfig" "now_admit (failingCall 1500) = 1500"
    by (simp_all add: openBreaker_def failingCall_def)
  from h1 C1_admission_order[of openBreaker 2000001000 "failingCall 1500" openBreaker_scan]
  have a1: "preAdmission openBreaker 2000001000 =
     Admitted (openBreaker\<lparr>state := Some HalfOpen, halfOpenCalls := 1\<rparr>)"
    by (elim conjE) simp
  from h2 c C1_admission_order[of openBreaker 1500 "failingCall 1500" openBreaker_scan]
  have a2: "preAdmission openBreaker 1500 = Rejected (rejectedOpen testConfig) openBreaker"
    and a3: "Execute openBreaker (failingCall 1500) =
     Some (Inr \<lparr>returned = Some (errors_New (rejectedOpen testConfig)), invoked = False,
                breaker = openBreaker\<rparr>)"
    by (elim conjE, simp)+
  from h3 C1_admission_order[of "openBreaker\<lparr>state := Some HalfOpen, halfOpenCalls := 3\<rparr>"
        1500 "failingCall 1500" openBreaker_scan]
  have a4: "preAdmission (openBreaker\<lparr>state := Some HalfOpen, halfOpenCalls := 3\<rparr>) 1500 =
     Rejected (rejectedHalfOpenLimit testConfig)
       (openBreaker\<lparr>state := Some HalfOpen, halfOpenCalls := 3\<rparr>)"
    by (elim conjE) (simp add: openBreaker_def)
  from h4 C1_admission_order[of openBreaker 2000001000 "failingCall 1500" openBreaker_scan]
  have a5: "preAdmission_scan openBreaker_scan 2000001000 =
     Admitted_scan (openBreaker_scan\<lparr>state_scan := Some HalfOpen, halfOpenCalls_scan := 1\<rparr>)"
    by (elim conjE) simp
  from h5 C1_admission_order[of openBreaker 1500 "failingCall 1500"
        "openBreaker_scan\<lparr>state_scan := Some Closed\<rparr>"]
  have a6: "preAdmission_scan (openBreaker_scan\<lparr>state_scan := Some Closed\<rparr>) 1500 =
     Admitted_scan (openBreaker_scan\<lparr>state_scan := Some Closed\<rparr>)"
    by (elim conjE) simp
  from a1 a2 a3 a4 a5 a6 show ?thesis by simp
qed

section \<open>Rejection and error propagation\<close>

lemma preAdmission_scan_Rejected_fields:
  assumes "preAdmission_scan cb now = Rejected_scan msg cb1"
  shows "requests_scan cb1 = requests_scan cb \<and>
         lastFailureTime_scan cb1 = lastFailureTime_scan cb \<and> config_scan cb1 = config_scan cb"
  using assms
  by (auto simp: preAdmission_scan_def SetState_scan_def Let_def split: if_splits)



section \<open>Recording an outcome\<close>

lemma cleanupOldRequests_result:
  assumes "cleanupOldRequests cb now = Some cb'"
  shows "(\<exists>k. requests cb' = drop k (requests cb)) \<and>
         config cb' = config cb \<and> state cb' = state cb \<and>
         halfOpenCalls cb' = halfOpenCalls cb \<and> lastFailureTime cb' = lastFailureTime cb"
proof (cases "SlidingWindowType (config cb) = COUNT_BASED")
  case True
  with assms have "enforceCountBasedWindow cb = Some cb'"
    by (simp add: cleanupOldRequests_def)
  from enforceCountBasedWindow_result[OF this] show ?thesis by blast
next
  case False
  show ?thesis
  proof (cases "SlidingWindowType (config cb) = TIME_BASED")
    case True
    with False assms have
      c: "cb' = enforceTimeBasedLoop cb (now + wrap64 (- SlidingWindowSize (config cb)))"
      by (simp add: cleanupOldRequests_def enforceTimeBasedWindow_def)
    have "requests cb' =
        drop (length (takeWhile
                (\<lambda>e. executionTime e < now + wrap64 (- SlidingWindowSize (config cb)))
                (requests cb))) (requests cb)"
      unfolding c enforceTimeBasedLoop_requests by (rule dropWhile_eq_drop)
    with enforceTimeBasedLoop_fields[of cb "now + wrap64 (- SlidingWindowSize (config cb))"] c
    show ?thesis by blast
  next
    case notTime: False
    with False assms have "cb' = cb" by (simp add: cleanupOldRequests_def)
    then show ?thesis by (auto intro: exI[of _ 0])
  qed
qed

lemma addRequest_result:
  assumes "addRequest cb f s tp tq = Some cb1"
  shows "(\<exists>k. requests cb1 =
            drop k (requests cb) @ [\<lparr>failed = f, slow = s, executionTime = tq\<rparr>]) \<and>
         config cb1 = config cb \<and> state cb1 = state cb \<and>
         halfOpenCalls cb1 = halfOpenCalls cb \<and> lastFailureTime cb1 = lastFailureTime cb"
proof -
  from assms obtain cb0 where c: "cleanupOldRequests cb tp = Some cb0"
    by (auto simp: addRequest_def split: option.splits)
  from c assms have
    "requests cb1 = requests cb0 @ [\<lparr>failed = f, slow = s, executionTime = tq\<rparr>]"
    "config cb1 = config cb0" "state cb1 = state cb0"
    "halfOpenCalls cb1 = halfOpenCalls cb0" "lastFailureTime cb1 = lastFailureTime cb0"
    by (auto simp: addRequest_def Let_def)
  with cleanupOldRequests_result[OF c] show ?thesis by auto
qed





lemma addRequest_scan_fields:
  "config_scan (addRequest_scan cb f s) = config_scan cb \<and>
   state_scan (addRequest_scan cb f s) = state_scan cb \<and>
   halfOpenCalls_scan (addRequest_scan cb f s) = halfOpenCalls_scan cb \<and>
   lastFailureTime_scan (addRequest_scan cb f s) = lastFailureTime_scan cb"
  by (simp add: addRequest_scan_def Let_def split: list.splits)

lemma addRequest_scan_requests:
  "requests_scan (addRequest_scan cb f s) =
     (if SlidingWindowSize (config_scan cb) \<le> int (length (requests_scan cb))
      then tl (requests_scan cb) else requests_scan cb) @ [\<lparr>failed_scan = f, slow_scan = s\<rparr>]"
  by (simp add: addRequest_scan_def Let_def split: list.splits)

text \<open>
  C3. Recording an outcome while the breaker is Half-Open, in both engines, where
  \<open>cb1\<close> is the breaker after the new record was inserted:
  \<^item> the call failed or was slow: the breaker becomes Open, \<open>lastFailureTime\<close> is the clock
    reading and \<open>halfOpenCalls\<close> is 0, whatever \<open>halfOpenCalls\<close> was;
  \<^item> the call neither failed nor was slow and \<open>halfOpenCalls\<close> has reached
    \<open>PermittedNumberOfCallsInHalfOpenState\<close>: the breaker becomes Closed with
    \<open>halfOpenCalls = 0\<close>, and the window, which ends with the record of this call, is
    kept;
  \<^item> the call neither failed nor was slow and the quota is not reached: nothing but the
    window changes, the breaker stays Half-Open.
\<close>

theorem C3_half_open_outcome:
  "(state cb = Some HalfOpen \<and> addRequest cb (err \<noteq> None) isSlow tp tq = Some cb1 \<longrightarrow>
      (err \<noteq> None \<or> isSlow \<longrightarrow>
         recordResult cb err isSlow tp tq te =
           Some (Inr (cb1\<lparr>state := Some Open, halfOpenCalls := 0, lastFailureTime := te\<rparr>))) \<and>
      (err = None \<and> \<not> isSlow \<and>
         PermittedNumberOfCallsInHalfOpenState (config cb) \<le> halfOpenCalls cb \<longrightarrow>
         recordResult cb err isSlow tp tq te =
           Some (Inr (cb1\<lparr>state := Some Closed, halfOpenCalls := 0\<rparr>)) \<and>
         (\<exists>k. requests cb1 =
            drop k (requests cb) @ [\<lparr>failed = False, slow = False, executionTime = tq\<rparr>])) \<and>
      (err = None \<and> \<not> isSlow \<and>
         halfOpenCalls cb < PermittedNumberOfCallsInHalfOpenState (config cb) \<longrightarrow>
         recordResult cb err isSlow tp tq te = Some (Inr cb1) \<and>
         state cb1 = Some HalfOpen \<and> halfOpenCalls cb1 = halfOpenCalls cb)) \<and>
   (state_scan cbs = Some HalfOpen \<and> cbs1 = addRequest_scan cbs (err \<noteq> None) isSlow \<longrightarrow>
      (err \<noteq> None \<or> isSlow \<longrightarrow>
         recordResult_scan cbs err isSlow te =
           Inr (cbs1\<lparr>state_scan := Some Open, halfOpenCalls_scan := 0,
                     lastFailureTime_scan := te\<rparr>)) \<and>
      (err = None \<and> \<not> isSlow \<and>
         PermittedNumberOfCallsInHalfOpenState (config_scan cbs) \<le> halfOpenCalls_scan cbs \<longrightarrow>
         recordResult_scan cbs err isSlow te =
           Inr (cbs1\<lparr>state_scan := Some Closed, halfOpenCalls_scan := 0\<rparr>) \<and>
         requests_scan cbs1 =
           (if SlidingWindowSize (config_scan cbs) \<le> int (length (requests_scan cbs))
            then tl (requests_scan cbs) else requests_scan cbs) @
           [\<lparr>failed_scan = False, slow_scan = False\<rparr>]) \<and>
      (err = None \<and> \<not> isSlow \<and>
         halfOpenCalls_scan cbs < PermittedNumberOfCallsInHalfOpenState (config_scan cbs) \<longrightarrow>
         recordResult_scan cbs err isSlow te = Inr cbs1 \<and>
         state_scan cbs1 = Some HalfOpen \<and> halfOpenCalls_scan cbs1 = halfOpenCalls_scan cbs))"
proof (intro conjI impI)
  assume a: "state cb = Some HalfOpen \<and> addRequest cb (err \<noteq> None) isSlow tp tq = Some cb1"
  with addRequest_result[of cb "err \<noteq> None" isSlow tp tq cb1]
  have f: "config cb1 = config cb" "state cb1 = Some HalfOpen"
    "halfOpenCalls cb1 = halfOpenCalls cb"
    and w: "\<exists>k. requests cb1 =
            drop k (requests cb) @ [\<lparr>failed = err \<noteq> None, slow = isSlow, executionTime = tq\<rparr>]"
    by simp_all
  {
    assume "err \<noteq> None \<or> isSlow"
    with a f show "recordResult cb err isSlow tp tq te =
           Some (Inr (cb1\<lparr>state := Some Open, halfOpenCalls := 0, lastFailureTime := te\<rparr>))"
      by (auto simp: recordResult_def SetState_def)
  }
  {
    assume b: "err = None \<and> \<not> isSlow \<and>
         PermittedNumberOfCallsInHalfOpenState (config cb) \<le> halfOpenCalls cb"
    with a f show "recordResult cb err isSlow tp tq te =
           Some (Inr (cb1\<lparr>state := Some Closed, halfOpenCalls := 0\<rparr>))"
      by (simp add: recordResult_def SetState_def)
    from b w show "\<exists>k. requests cb1 =
            drop k (requests cb) @ [\<lparr>failed = False, slow = False, executionTime = tq\<rparr>]"
      by simp
  }
  {
    assume b: "err = None \<and> \<not> isSlow \<and>
         halfOpenCalls cb < PermittedNumberOfCallsInHalfOpenState (config cb)"
    with a f show "recordResult cb err isSlow tp tq te = Some (Inr cb1)"
      by (simp add: recordResult_def SetState_def)
    from f show "state cb1 = Some HalfOpen" "halfOpenCalls cb1 = halfOpenCalls cb"
      by simp_all
  }
next
  assume a: "state_scan cbs = Some HalfOpen \<and> cbs1 = addRequest_scan cbs (err \<noteq> None) isSlow"
  with addRequest_scan_fields[of cbs "err \<noteq> None" isSlow]
  have f: "config_scan cbs1 = config_scan cbs" "state_scan cbs1 = Some HalfOpen"
    "halfOpenCalls_scan cbs1 = halfOpenCalls_scan cbs"
    by simp_all
  {
    assume "err \<noteq> None \<or> isSlow"
    with a f show "recordResult_scan cbs err isSlow te =
           Inr (cbs1\<lparr>state_scan := Some Open, halfOpenCalls_scan := 0,
                     lastFailureTime_scan := te\<rparr>)"
      by (auto simp: recordResult_scan_def SetState_scan_def Let_def)
  }
  {
    assume b: "err = None \<and> \<not> isSlow \<and>
         PermittedNumberOfCallsInHalfOpenState (config_scan cbs) \<le> halfOpenCalls_scan cbs"
    with a f show "recordResult_scan cbs err isSlow te =
           Inr (cbs1\<lparr>state_scan := Some Closed, halfOpenCalls_scan := 0\<rparr>)"
      by (simp add: recordResult_scan_def SetState_scan_def Let_def)
    from a b show "requests_scan cbs1 =
           (if SlidingWindowSize (config_scan cbs) \<le> int (length (requests_scan cbs))
            then tl (requests_scan cbs) else requests_scan cbs) @
           [\<lparr>failed_scan = False, slow_scan = False\<rparr>]"
      by (simp add: addRequest_scan_requests)
  }
  {
    assume b: "err = None \<and> \<not> isSlow \<and>
         halfOpenCalls_scan cbs < PermittedNumberOfCallsInHalfOpenState (config_scan cbs)"
    with a f show "recordResult_scan cbs err isSlow te = Inr cbs1"
      by (simp add: recordResult_scan_def SetState_scan_def Let_def)
    from f show "state_scan cbs1 = Some HalfOpen"
      "halfOpenCalls_scan cbs1 = halfOpenCalls_scan cbs"
      by simp_all
  }
qed

lemma halfOpenBreaker_inserts:
  "(case addRequest halfOpenBreaker True False 9 9 of Some cb1 \<Rightarrow> True | None \<Rightarrow> False) \<and>
   (case addRequest halfOpenBreaker False False 9 9 of Some cb1 \<Rightarrow> True | None \<Rightarrow> False) \<and>
   (case addRequest (halfOpenBreaker\<lparr>halfOpenCalls := 3\<rparr>) False False 9 9 of
      Some cb1 \<Rightarrow> True | None \<Rightarrow> False)"
  by code_simp

theorem C3_half_open_outcome_witness:
  "(\<exists>cb'. recordResult halfOpenBreaker (Some ''failure'') False 9 9 10 = Some (Inr cb') \<and>
      state cb' = Some Open \<and> halfOpenCalls cb' = 0 \<and> lastFailureTime cb' = 10) \<and>
   (\<exists>cb'. recordResult (halfOpenBreaker\<lparr>halfOpenCalls := 3\<rparr>) (None :: string option) False 9 9 10
             = Some (Inr cb') \<and>
      state cb' = Some Closed \<and> halfOpenCalls cb' = 0 \<and> requests cb' \<noteq> []) \<and>
   (\<exists>cb'. recordResult halfOpenBreaker (None :: string option) False 9 9 10 = Some (Inr cb') \<and>
      state cb' = Some HalfOpen \<and> halfOpenCalls cb' = 2) \<and>
   (\<exists>cb'. recordResult_scan halfOpenBreaker_scan (None :: string option) True 10 = Inr cb' \<and>
      state_scan cb' = Some Open \<and> halfOpenCalls_scan cb' = 0 \<and> lastFailureTime_scan cb' = 10)"
proof -
  from halfOpenBreaker_inserts obtain c1 c2 c3 where
    a1: "addRequest halfOpenBreaker (Some ''failure'' \<noteq> None) False 9 9 = Some c1" and
    a2: "addRequest halfOpenBreaker ((None :: string option) \<noteq> None) False 9 9 = Some c2" and
    a3: "addRequest (halfOpenBreaker\<lparr>halfOpenCalls := 3\<rparr>) ((None :: string option) \<noteq> None)
           False 9 9 = Some c3"
    by (auto split: option.splits)
  have c: "state halfOpenBreaker = Some HalfOpen" "halfOpenCalls halfOpenBreaker = 2"
    "PermittedNumberOfCallsInHalfOpenState (config halfOpenBreaker) = 3"
    "state_scan halfOpenBreaker_scan = Some HalfOpen"
    by (simp_all add: halfOpenBreaker_def halfOpenBreaker_scan_def openBreaker_def testConfig_def)
  from a1 c C3_half_open_outcome[of halfOpenBreaker "Some ''failure''" False 9 9 c1 10
      halfOpenBreaker_scan "addRequest_scan halfOpenBreaker_scan True False"]
  have "recordResult halfOpenBreaker (Some ''failure'') False 9 9 10 =
          Some (Inr (c1\<lparr>state := Some Open, halfOpenCalls := 0, lastFailureTime := 10\<rparr>))"
    by (elim conjE) simp
  then have p1: "\<exists>cb'. recordResult halfOpenBreaker (Some ''failure'') False 9 9 10
        = Some (Inr cb') \<and>
      state cb' = Some Open \<and> halfOpenCalls cb' = 0 \<and> lastFailureTime cb' = 10"
    by simp
  from a3 c C3_half_open_outcome[of "halfOpenBreaker\<lparr>halfOpenCalls := 3\<rparr>"
      "None :: string option" False 9 9 c3 10
      halfOpenBreaker_scan "addRequest_scan halfOpenBreaker_scan False False"]
  have "recordResult (halfOpenBreaker\<lparr>halfOpenCalls := 3\<rparr>) (None :: string option) False 9 9 10 =
          Some (Inr (c3\<lparr>state := Some Closed, halfOpenCalls := 0\<rparr>)) \<and>
        (\<exists>k. requests c3 =
            drop k (requests (halfOpenBreaker\<lparr>halfOpenCalls := 3\<rparr>)) @
              [\<lparr>failed = False, slow = False, executionTime = 9\<rparr>])"
    by (elim conjE) simp
  then have p2: "\<exists>cb'. recordResult (halfOpenBreaker\<lparr>halfOpenCalls := 3\<rparr>)
        (None :: string option) False 9 9 10 = Some (Inr cb') \<and>
      state cb' = Some Closed \<and> halfOpenCalls cb' = 0 \<and> requests cb' \<noteq> []"
    by auto
  from a2 c C3_half_open_outcome[of halfOpenBreaker "None :: string option" False 9 9 c2 10
      halfOpenBreaker_scan "addRequest_scan halfOpenBreaker_scan False False"]
  have "recordResult halfOpenBreaker (None :: string option) False 9 9 10 = Some (Inr c2) \<and>
        state c2 = Some HalfOpen \<and> halfOpenCalls c2 = halfOpenCalls halfOpenBreaker"
    by (elim conjE) simp
  with c have p3: "\<exists>cb'. recordResult halfOpenBreaker (None :: string option) False 9 9 10
        = Some (Inr cb') \<and>
      state cb' = Some HalfOpen \<and> halfOpenCalls cb' = 2"
    by simp
  from c C3_half_open_outcome[of halfOpenBreaker "None :: string option" True 9 9 c2 10
      halfOpenBreaker_scan "addRequest_scan halfOpenBreaker_scan False True"]
  have "recordResult_scan halfOpenBreaker_scan (None :: string option) True 10 =
          Inr ((addRequest_scan halfOpenBreaker_scan False True)
                 \<lparr>state_scan := Some Open, halfOpenCalls_scan := 0, lastFailureTime_scan := 10\<rparr>)"
    by (elim conjE) simp
  then have p4: "\<exists>cb'. recordResult_scan halfOpenBreaker_scan (None :: string option) True 10
        = Inr cb' \<and>
      state_scan cb' = Some Open \<and> halfOpenCalls_scan cb' = 0 \<and> lastFailureTime_scan cb' = 10"
    by simp
  from p1 p2 p3 p4 show ?thesis by blast
qed

section \<open>The window bound\<close>

lemma enforceCountBasedWindow_total:
  "1 \<le> SlidingWindowSize (config cb) \<Longrightarrow>
   \<exists>cb'. enforceCountBasedWindow cb = Some cb' \<and>
     requests cb' =
       drop (nat (int (length (requests cb)) - SlidingWindowSize (config cb) + 1)) (requests cb)"
proof (induction "length (requests cb)" arbitrary: cb)
  case 0
  then show ?case by (subst enforceCountBasedWindow.simps) simp
next
  case (Suc n)
  show ?case
  proof (cases "SlidingWindowSize (config cb) \<le> int (length (requests cb))")
    case False
    then show ?thesis by (subst enforceCountBasedWindow.simps) simp
  next
    case True
    from Suc.hyps(2) have ne: "requests cb \<noteq> []" by auto
    from Suc.hyps(2) have n: "n = length (requests (removeFrontRequest cb))"
      by (simp add: removeFrontRequest_requests)
    from Suc.prems have "1 \<le> SlidingWindowSize (config (removeFrontRequest cb))"
      by (simp add: removeFrontRequest_fields)
    from Suc.hyps(1)[OF n this] obtain cb' where
      r: "enforceCountBasedWindow (removeFrontRequest cb) = Some cb'" and
      d: "requests cb' =
            drop (nat (int (length (requests (removeFrontRequest cb)))
                       - SlidingWindowSize (config (removeFrontRequest cb)) + 1))
              (requests (removeFrontRequest cb))"
      by blast
    from True ne r have e: "enforceCountBasedWindow cb = Some cb'"
      by (subst enforceCountBasedWindow.simps) simp
    from ne obtain x xs where xs: "requests cb = x # xs" by (cases "requests cb") auto
    from True xs have
      "nat (int (length (requests cb)) - SlidingWindowSize (config cb) + 1) =
       Suc (nat (int (length xs) - SlidingWindowSize (config cb) + 1))"
      by simp
    with d xs have
      "requests cb' =
         drop (nat (int (length (requests cb)) - SlidingWindowSize (config cb) + 1)) (requests cb)"
      by (simp add: removeFrontRequest_requests removeFrontRequest_fields)
    with e show ?thesis by blast
  qed
qed

lemma addRequest_count_based:
  assumes "1 \<le> SlidingWindowSize (config cb)" and "SlidingWindowType (config cb) = COUNT_BASED"
  shows "\<exists>cb1. addRequest cb f s tp tq = Some cb1 \<and>
           requests cb1 =
             drop (nat (int (length (requests cb)) - SlidingWindowSize (config cb) + 1))
               (requests cb) @ [\<lparr>failed = f, slow = s, executionTime = tq\<rparr>] \<and>
           int (length (requests cb1)) \<le> SlidingWindowSize (config cb)"
proof -
  from enforceCountBasedWindow_total[OF assms(1)] obtain cb0 where
    e: "enforceCountBasedWindow cb = Some cb0" and
    d: "requests cb0 =
          drop (nat (int (length (requests cb)) - SlidingWindowSize (config cb) + 1)) (requests cb)"
    by blast
  from enforceCountBasedWindow_result[OF e] have
    l: "int (length (requests cb0)) < SlidingWindowSize (config cb)" by simp
  from e assms(2) have "cleanupOldRequests cb tp = Some cb0"
    by (simp add: cleanupOldRequests_def)
  then obtain cb1 where a: "addRequest cb f s tp tq = Some cb1" and
    r: "requests cb1 = requests cb0 @ [\<lparr>failed = f, slow = s, executionTime = tq\<rparr>]"
    by (auto simp: addRequest_def Let_def)
  from r l have "int (length (requests cb1)) \<le> SlidingWindowSize (config cb)" by simp
  with a r d show ?thesis by simp
qed

text \<open>\<open>Execute\<close> never dereferences a nil state pointer: the admission check rejects first.\<close>

lemma preAdmission_Admitted_state:
  "preAdmission cb now = Admitted cb1 \<Longrightarrow> state cb1 \<noteq> None"
  by (auto simp: preAdmission_def SetState_def IsOpen_def Let_def split: if_splits)

lemma recordResult_after_insert:
  assumes "addRequest cb (err \<noteq> None) isSlow tp tq = Some cb1" and "state cb \<noteq> None"
  shows "\<exists>cb'. recordResult cb err isSlow tp tq te = Some (Inr cb') \<and>
           requests cb' = requests cb1 \<and> config cb' = config cb"
proof -
  from addRequest_result[OF assms(1)] assms(2) have
    "state cb1 \<noteq> None" "config cb1 = config cb" by simp_all
  with assms(1) show ?thesis
    by (auto simp: recordResult_def SetState_def Let_def split: State.splits)
qed

lemma Execute_count_based:
  assumes "1 \<le> SlidingWindowSize (config cb)" and "SlidingWindowType (config cb) = COUNT_BASED"
    and "int (length (requests cb)) \<le> SlidingWindowSize (config cb)"
  shows "\<exists>r. Execute cb call = Some (Inr r) \<and> config (breaker r) = config cb \<and>
           int (length (requests (breaker r))) \<le> SlidingWindowSize (config cb)"
proof (cases "preAdmission cb (now_admit call)")
  case (Rejected msg cb1)
  with preAdmission_Rejected_fields[OF Rejected] assms(3) show ?thesis
    by (simp add: Execute_def)
next
  case (Admitted cb1)
  note f = preAdmission_Admitted_fields[OF Admitted]
  let ?slow = "SlowCallDurationThreshold (config cb1) \<le> action_duration call"
  from f assms have "1 \<le> SlidingWindowSize (config cb1)"
    "SlidingWindowType (config cb1) = COUNT_BASED" by simp_all
  from addRequest_count_based[OF this] obtain cb2 where
    a: "addRequest cb1 (action_err call \<noteq> None) ?slow (now_prune call) (now_push call) = Some cb2"
    and l: "int (length (requests cb2)) \<le> SlidingWindowSize (config cb1)"
    by blast
  from recordResult_after_insert[OF a preAdmission_Admitted_state[OF Admitted]]
  obtain cb' where
    "recordResult cb1 (action_err call) ?slow (now_prune call) (now_push call) (now_eval call)
       = Some (Inr cb')"
    "requests cb' = requests cb2" "config cb' = config cb1"
    by blast
  with Admitted l f show ?thesis
    by (simp add: Execute_def Let_def)
qed

lemma run_count_based:
  assumes "1 \<le> SlidingWindowSize (config cb)" and "SlidingWindowType (config cb) = COUNT_BASED"
    and "int (length (requests cb)) \<le> SlidingWindowSize (config cb)"
  shows "\<exists>cb'. run cb calls = Some (Inr cb') \<and> config cb' = config cb \<and>
           int (length (requests cb')) \<le> SlidingWindowSize (config cb)"
  using assms
proof (induction calls arbitrary: cb)
  case Nil
  then show ?case by simp
next
  case (Cons call calls)
  from Execute_count_based[OF Cons.prems, of call] obtain r where
    e: "Execute cb call = Some (Inr r)" and c: "config (breaker r) = config cb" and
    l: "int (length (requests (breaker r))) \<le> SlidingWindowSize (config cb)"
    by blast
  from Cons.IH[of "breaker r"] Cons.prems c l obtain cb' where
    "run (breaker r) calls = Some (Inr cb')" "config cb' = config cb"
    "int (length (requests cb')) \<le> SlidingWindowSize (config cb)"
    by auto
  with e show ?case by simp
qed

lemma preAdmission_scan_Admitted_fields:
  assumes "preAdmission_scan cb now = Admitted_scan cb1"
  shows "requests_scan cb1 = requests_scan cb \<and> config_scan cb1 = config_scan cb \<and>
         state_scan cb1 \<noteq> None"
  using assms
  by (auto simp: preAdmission_scan_def SetState_scan_def IsOpen_scan_def Let_def split: if_splits)

lemma recordResult_scan_window:
  assumes "state_scan cb \<noteq> None"
  shows "\<exists>cb'. recordResult_scan cb err isSlow te = Inr cb' \<and>
           requests_scan cb' = requests_scan (addRequest_scan cb (err \<noteq> None) isSlow) \<and>
           config_scan cb' = config_scan cb"
  using assms addRequest_scan_fields[of cb "err \<noteq> None" isSlow]
  by (auto simp: recordResult_scan_def SetState_scan_def Let_def split: State.splits)

lemma addRequest_scan_length:
  assumes "1 \<le> SlidingWindowSize (config_scan cb)"
    and "int (length (requests_scan cb)) \<le> SlidingWindowSize (config_scan cb)"
  shows "int (length (requests_scan (addRequest_scan cb f s))) \<le> SlidingWindowSize (config_scan cb)"
  using assms by (cases "requests_scan cb") (auto simp: addRequest_scan_requests)

lemma Execute_scan_bound:
  assumes "1 \<le> SlidingWindowSize (config_scan cb)"
    and "int (length (requests_scan cb)) \<le> SlidingWindowSize (config_scan cb)"
  shows "\<exists>r. Execute_scan cb call = Inr r \<and> config_scan (breaker_scan r) = config_scan cb \<and>
           int (length (requests_scan (breaker_scan r))) \<le> SlidingWindowSize (config_scan cb)"
proof (cases "preAdmission_scan cb (now_admit call)")
  case (Rejected_scan msg cb1)
  with preAdmission_scan_Rejected_fields[OF Rejected_scan] assms(2) show ?thesis
    by (simp add: Execute_scan_def)
next
  case (Admitted_scan cb1)
  note f = preAdmission_scan_Admitted_fields[OF Admitted_scan]
  let ?slow = "SlowCallDurationThreshold (config_scan cb1) \<le> action_duration call"
  from f obtain cb' where
    r: "recordResult_scan cb1 (action_err call) ?slow (now_eval call) = Inr cb'"
       "requests_scan cb' = requests_scan (addRequest_scan cb1 (action_err call \<noteq> None) ?slow)"
       "config_scan cb' = config_scan cb1"
    using recordResult_scan_window[of cb1 "action_err call" ?slow "now_eval call"] by blast
  from f assms have "1 \<le> SlidingWindowSize (config_scan cb1)"
    "int (length (requests_scan cb1)) \<le> SlidingWindowSize (config_scan cb1)" by simp_all
  from addRequest_scan_length[OF this] r f Admitted_scan show ?thesis
    by (simp add: Execute_scan_def Let_def)
qed

lemma run_scan_bound:
  assumes "1 \<le> SlidingWindowSize (config_scan cb)"
    and "int (length (requests_scan cb)) \<le> SlidingWindowSize (config_scan cb)"
  shows "\<exists>cb'. run_scan cb calls = Inr cb' \<and> config_scan cb' = config_scan cb \<and>
           int (length (requests_scan cb')) \<le> SlidingWindowSize (config_scan cb)"
  using assms
proof (induction calls arbitrary: cb)
  case Nil
  then show ?case by simp
next
  case (Cons call calls)
  from Execute_scan_bound[OF Cons.prems, of call] obtain r where
    e: "Execute_scan cb call = Inr r" and c: "config_scan (breaker_scan r) = config_scan cb" and
    l: "int (length (requests_scan (breaker_scan r))) \<le> SlidingWindowSize (config_scan cb)"
    by blast
  from Cons.IH[of "breaker_scan r"] Cons.prems c l obtain cb' where
    "run_scan (breaker_scan r) calls = Inr cb'" "config_scan cb' = config_scan cb"
    "int (length (requests_scan cb')) \<le> SlidingWindowSize (config_scan cb)"
    by auto
  with e show ?case by simp
qed

text \<open>
  C5, as the code has it. A window size of 0 breaks the bound: the engine of
  \<^verbatim>\<open>circuitbreaker.go\<close> finds nothing to drop in an empty window and inserts, so the
  window holds one record.
\<close>

theorem C5_window_bound_counterexample:
  "run_scan (NewCircuitBreaker_scan zeroSizeConfig) [failingCall 0] =
     Inr \<lparr>config_scan = zeroSizeConfig, state_scan = Some Closed, halfOpenCalls_scan = 0,
          lastFailureTime_scan = 0,
          requests_scan = [\<lparr>failed_scan = True, slow_scan = False\<rparr>]\<rparr> \<and>
   SlidingWindowSize zeroSizeConfig = 0 \<and>
   SlidingWindowType zeroSizeConfig = COUNT_BASED"
  by code_simp

text \<open>
  C5, amended. For a count-based window with \<open>SlidingWindowSize \<ge> 1\<close>: the pruning
  loop of the engine with counters returns and drops the oldest records until fewer than
  \<open>SlidingWindowSize\<close> are left, \<open>addRequest\<close> prunes before it inserts, and the window
  never holds more than \<open>SlidingWindowSize\<close> records after an insertion; in both engines,
  after every sequence of calls on a new breaker the window length is at most
  \<open>SlidingWindowSize\<close>.
\<close>

theorem C5_window_bound:
  assumes "1 \<le> SlidingWindowSize c" and "SlidingWindowType c = COUNT_BASED"
  shows "(\<forall>cb. config cb = c \<longrightarrow>
            (\<exists>cb'. enforceCountBasedWindow cb = Some cb' \<and>
               requests cb' =
                 drop (nat (int (length (requests cb)) - SlidingWindowSize c + 1)) (requests cb) \<and>
               int (length (requests cb')) < SlidingWindowSize c)) \<and>
         (\<forall>cb f s tp tq. config cb = c \<longrightarrow>
            (\<exists>cb1. addRequest cb f s tp tq = Some cb1 \<and>
               requests cb1 =
                 drop (nat (int (length (requests cb)) - SlidingWindowSize c + 1)) (requests cb) @
                 [\<lparr>failed = f, slow = s, executionTime = tq\<rparr>] \<and>
               int (length (requests cb1)) \<le> SlidingWindowSize c)) \<and>
         (\<exists>cb'. run (NewCircuitBreaker c) calls = Some (Inr cb') \<and>
            int (length (requests cb')) \<le> SlidingWindowSize c) \<and>
         (\<exists>cb'. run_scan (NewCircuitBreaker_scan c) calls = Inr cb' \<and>
            int (length (requests_scan cb')) \<le> SlidingWindowSize c)"
proof (intro conjI allI impI)
  fix cb :: CircuitBreaker
  assume c: "config cb = c"
  with assms(1) have "1 \<le> SlidingWindowSize (config cb)" by simp
  from enforceCountBasedWindow_total[OF this] obtain cb' where
    e: "enforceCountBasedWindow cb = Some cb'"
       "requests cb' =
          drop (nat (int (length (requests cb)) - SlidingWindowSize (config cb) + 1)) (requests cb)"
    by blast
  with enforceCountBasedWindow_result[OF e(1)] c
  show "\<exists>cb'. enforceCountBasedWindow cb = Some cb' \<and>
               requests cb' =
                 drop (nat (int (length (requests cb)) - SlidingWindowSize c + 1)) (requests cb) \<and>
               int (length (requests cb')) < SlidingWindowSize c"
    by simp
next
  fix cb :: CircuitBreaker and f s tp tq
  assume c: "config cb = c"
  with assms have "1 \<le> SlidingWindowSize (config cb)"
    "SlidingWindowType (config cb) = COUNT_BASED" by simp_all
  from addRequest_count_based[OF this, of f s tp tq] c
  show "\<exists>cb1. addRequest cb f s tp tq = Some cb1 \<and>
               requests cb1 =
                 drop (nat (int (length (requests cb)) - SlidingWindowSize c + 1)) (requests cb) @
                 [\<lparr>failed = f, slow = s, executionTime = tq\<rparr>] \<and>
               int (length (requests cb1)) \<le> SlidingWindowSize c"
    by simp
next
  have n: "config (NewCircuitBreaker c) = c" "requests (NewCircuitBreaker c) = []"
    by (simp_all add: NewCircuitBreaker_def)
  with assms have "1 \<le> SlidingWindowSize (config (NewCircuitBreaker c))"
    "SlidingWindowType (config (NewCircuitBreaker c)) = COUNT_BASED"
    "int (length (requests (NewCircuitBreaker c))) \<le> SlidingWindowSize (config (NewCircuitBreaker c))"
    by simp_all
  from run_count_based[OF this, of calls] n
  show "\<exists>cb'. run (NewCircuitBreaker c) calls = Some (Inr cb') \<and>
            int (length (requests cb')) \<le> SlidingWindowSize c"
    by auto
next
  have n: "config_scan (NewCircuitBreaker_scan c) = c" "requests_scan (NewCircuitBreaker_scan c) = []"
    by (simp_all add: NewCircuitBreaker_scan_def)
  with assms have "1 \<le> SlidingWindowSize (config_scan (NewCircuitBreaker_scan c))"
    "int (length (requests_scan (NewCircuitBreaker_scan c)))
       \<le> SlidingWindowSize (config_scan (NewCircuitBreaker_scan c))"
    by simp_all
  from run_scan_bound[OF this, of calls] n
  show "\<exists>cb'. run_scan (NewCircuitBreaker_scan c) calls = Inr cb' \<and>
            int (length (requests_scan cb')) \<le> SlidingWindowSize c"
    by auto
qed

theorem C5_window_bound_witness:
  "1 \<le> SlidingWindowSize (testConfig\<lparr>SlidingWindowSize := 2\<rparr>) \<and>
   SlidingWindowType (testConfig\<lparr>SlidingWindowSize := 2\<rparr>) = COUNT_BASED \<and>
   (\<exists>cb'. run (NewCircuitBreaker (testConfig\<lparr>SlidingWindowSize := 2\<rparr>))
             [failingCall 0, succeedingCall 5, failingCall 9, succeedingCall 12] = Some (Inr cb') \<and>
      int (length (requests cb')) \<le> 2) \<and>
   (\<exists>cb'. run_scan (NewCircuitBreaker_scan (testConfig\<lparr>SlidingWindowSize := 2\<rparr>))
             [failingCall 0, succeedingCall 5, failingCall 9, succeedingCall 12] = Inr cb' \<and>
      int (length (requests_scan cb')) \<le> 2)"
proof -
  have h: "1 \<le> SlidingWindowSize (testConfig\<lparr>SlidingWindowSize := 2\<rparr>)"
    "SlidingWindowType (testConfig\<lparr>SlidingWindowSize := 2\<rparr>) = COUNT_BASED"
    by (simp_all add: testConfig_def)
  from C5_window_bound[OF h,
      of "[failingCall 0, succeedingCall 5, failingCall 9, succeedingCall 12]"] h
  show ?thesis by simp
qed

text \<open>With the same configuration the engine with counters never finishes recording a
  call: its pruning loop spins on the empty window.\<close>

lemma run_zero_size_never_returns:
  "run (NewCircuitBreaker zeroSizeConfig) [failingCall 0] = None"
proof -
  have "enforceCountBasedWindow (NewCircuitBreaker zeroSizeConfig) = None"
    by (rule enforceCountBasedWindow_never_returns)
       (simp add: NewCircuitBreaker_def zeroSizeConfig_def)
  then show ?thesis
    by (simp add: Execute_def preAdmission_def IsOpen_def IsHalfOpen_def recordResult_def
          addRequest_def cleanupOldRequests_def NewCircuitBreaker_def zeroSizeConfig_def
          testConfig_def)
qed

section \<open>When a call returns\<close>

text \<open>Recording returns unless the window is count-based with a size below 1, and then
  it never does.\<close>

lemma addRequest_returns:
  assumes "1 \<le> SlidingWindowSize (config cb) \<or> SlidingWindowType (config cb) \<noteq> COUNT_BASED"
  shows "\<exists>cb1. addRequest cb f s tp tq = Some cb1"
proof (cases "SlidingWindowType (config cb) = COUNT_BASED")
  case True
  with assms have "1 \<le> SlidingWindowSize (config cb)" by simp
  from addRequest_count_based[OF this True] show ?thesis by blast
next
  case False
  then show ?thesis
    by (simp add: addRequest_def cleanupOldRequests_def Let_def)
qed


lemma Execute_admitted_returns:
  assumes "1 \<le> SlidingWindowSize (config cb) \<or> SlidingWindowType (config cb) \<noteq> COUNT_BASED"
    and "preAdmission cb (now_admit call) = Admitted cb1"
  shows "\<exists>cb2. Execute cb call =
           Some (Inr \<lparr>returned = map_option action_error (action_err call), invoked = True,
                      breaker = cb2\<rparr>) \<and> config cb2 = config cb"
proof -
  note f = preAdmission_Admitted_fields[OF assms(2)]
  let ?slow = "SlowCallDurationThreshold (config cb1) \<le> action_duration call"
  from f assms(1) have
    "1 \<le> SlidingWindowSize (config cb1) \<or> SlidingWindowType (config cb1) \<noteq> COUNT_BASED"
    by simp
  from addRequest_returns[OF this] obtain cb2 where
    a: "addRequest cb1 (action_err call \<noteq> None) ?slow (now_prune call) (now_push call) = Some cb2"
    by blast
  from recordResult_after_insert[OF a preAdmission_Admitted_state[OF assms(2)]]
  obtain cb' where
    "recordResult cb1 (action_err call) ?slow (now_prune call) (now_push call) (now_eval call)
       = Some (Inr cb')"
    "config cb' = config cb1"
    by blast
  with assms(2) f show ?thesis
    by (simp add: Execute_def Let_def)
qed

lemma Execute_returns:
  assumes "1 \<le> SlidingWindowSize (config cb) \<or> SlidingWindowType (config cb) \<noteq> COUNT_BASED"
  shows "\<exists>r. Execute cb call = Some (Inr r) \<and> config (breaker r) = config cb"
proof (cases "preAdmission cb (now_admit call)")
  case (Rejected msg cb1)
  with preAdmission_Rejected_fields[OF Rejected] show ?thesis
    by (simp add: Execute_def)
next
  case (Admitted cb1)
  from Execute_admitted_returns[OF assms Admitted] show ?thesis by auto
qed

lemma run_returns:
  assumes "1 \<le> SlidingWindowSize (config cb) \<or> SlidingWindowType (config cb) \<noteq> COUNT_BASED"
  shows "\<exists>cb'. run cb calls = Some (Inr cb') \<and> config cb' = config cb"
  using assms
proof (induction calls arbitrary: cb)
  case Nil
  then show ?case by simp
next
  case (Cons call calls)
  from Execute_returns[OF Cons.prems, of call] obtain r where
    e: "Execute cb call = Some (Inr r)" and c: "config (breaker r) = config cb"
    by blast
  from Cons.IH[of "breaker r"] Cons.prems c obtain cb' where
    "run (breaker r) calls = Some (Inr cb')" "config cb' = config cb"
    by auto
  with e show ?case by simp
qed






section \<open>Time-based pruning\<close>

lemma wrap64_neg: "- (2 ^ 63) < x \<Longrightarrow> x < 2 ^ 63 \<Longrightarrow> wrap64 (- x) = - x"
  by (simp add: wrap64_def)

lemma enforceTimeBasedWindow_requests:
  "requests (enforceTimeBasedWindow cb now) =
     dropWhile (\<lambda>e. executionTime e < now + wrap64 (- SlidingWindowSize (config cb)))
       (requests cb)"
  by (simp add: enforceTimeBasedWindow_def enforceTimeBasedLoop_requests)

lemma enforceTimeBasedWindow_in_range:
  assumes "- (2 ^ 63) < SlidingWindowSize (config cb)" and "SlidingWindowSize (config cb) < 2 ^ 63"
  shows "requests (enforceTimeBasedWindow cb now) =
     dropWhile (\<lambda>e. executionTime e < now - SlidingWindowSize (config cb)) (requests cb)"
  unfolding enforceTimeBasedWindow_requests wrap64_neg[OF assms] by simp

lemma sorted_dropWhile_all:
  "sorted (map f xs) \<Longrightarrow> \<forall>x \<in> set (dropWhile (\<lambda>x. f x < (t::int)) xs). t \<le> f x"
proof (induction xs)
  case Nil
  then show ?case by simp
next
  case (Cons x xs)
  then show ?case by (cases "f x < t") (auto simp: order.trans)
qed

text \<open>Under a clock that does not run backwards the window stays in timestamp order.\<close>

lemma addRequest_keeps_time_order:
  assumes "addRequest cb f s tp tq = Some cb1"
    and "sorted (map executionTime (requests cb))"
    and "\<forall>e \<in> set (requests cb). executionTime e \<le> tq"
  shows "sorted (map executionTime (requests cb1))"
proof -
  from addRequest_result[OF assms(1)] obtain k where
    k: "requests cb1 = drop k (requests cb) @ [\<lparr>failed = f, slow = s, executionTime = tq\<rparr>]"
    by blast
  from assms(2) have "sorted (drop k (map executionTime (requests cb)))"
    by (rule sorted_wrt_drop)
  moreover from assms(3) have "\<forall>e \<in> set (drop k (requests cb)). executionTime e \<le> tq"
    by (auto dest: in_set_dropD)
  ultimately show ?thesis
    unfolding k by (simp add: sorted_append drop_map)
qed

lemma Execute_keeps_time_order:
  assumes "Execute cb call = Some (Inr r)"
    and "sorted (map executionTime (requests cb))"
    and "\<forall>e \<in> set (requests cb). executionTime e \<le> now_push call"
  shows "sorted (map executionTime (requests (breaker r))) \<and>
         (\<forall>e \<in> set (requests (breaker r)). executionTime e \<le> now_push call)"
proof (cases "preAdmission cb (now_admit call)")
  case (Rejected msg cb1)
  with assms(1) have "breaker r = cb1" by (auto simp: Execute_def)
  with preAdmission_Rejected_fields[OF Rejected] assms(2,3) show ?thesis by simp
next
  case (Admitted cb1)
  note f = preAdmission_Admitted_fields[OF Admitted]
  let ?slow = "SlowCallDurationThreshold (config cb1) \<le> action_duration call"
  from assms(1) Admitted have
    "recordResult cb1 (action_err call) ?slow (now_prune call) (now_push call) (now_eval call)
       = Some (Inr (breaker r))"
    by (auto simp: Execute_def Let_def split: option.splits sum.splits)
  from recordResult_window[OF this] obtain cb2 where
    a: "addRequest cb1 (action_err call \<noteq> None) ?slow (now_prune call) (now_push call) = Some cb2"
    and w: "requests (breaker r) = requests cb2"
    by blast
  from f assms(2,3) have s1: "sorted (map executionTime (requests cb1))"
    and b1: "\<forall>e \<in> set (requests cb1). executionTime e \<le> now_push call"
    by simp_all
  from addRequest_keeps_time_order[OF a s1 b1] have "sorted (map executionTime (requests cb2))" .
  moreover from addRequest_result[OF a] obtain k where
    "requests cb2 = drop k (requests cb1) @
       [\<lparr>failed = action_err call \<noteq> None, slow = ?slow, executionTime = now_push call\<rparr>]"
    by blast
  with b1 have "\<forall>e \<in> set (requests cb2). executionTime e \<le> now_push call"
    by (auto dest: in_set_dropD)
  ultimately show ?thesis unfolding w by simp
qed

lemma run_keeps_time_order:
  assumes "run cb calls = Some (Inr cb')"
    and "sorted (map executionTime (requests cb))"
    and "sorted (map now_push calls)"
    and "\<forall>e \<in> set (requests cb). \<forall>call \<in> set calls. executionTime e \<le> now_push call"
  shows "sorted (map executionTime (requests cb'))"
  using assms
proof (induction calls arbitrary: cb)
  case Nil
  then show ?case by simp
next
  case (Cons call calls)
  from Cons.prems(1) obtain r where
    e: "Execute cb call = Some (Inr r)" and r: "run (breaker r) calls = Some (Inr cb')"
    by (auto split: option.splits sum.splits)
  from Cons.prems(4) have "\<forall>e \<in> set (requests cb). executionTime e \<le> now_push call" by simp
  from Execute_keeps_time_order[OF e Cons.prems(2) this] have
    s: "sorted (map executionTime (requests (breaker r)))" and
    b: "\<forall>e \<in> set (requests (breaker r)). executionTime e \<le> now_push call"
    by simp_all
  from Cons.prems(3) have s': "sorted (map now_push calls)"
    and l: "\<forall>c \<in> set calls. now_push call \<le> now_push c"
    by simp_all
  from b l have "\<forall>e \<in> set (requests (breaker r)). \<forall>c \<in> set calls. executionTime e \<le> now_push c"
    by (meson order.trans)
  from Cons.IH[OF r s s' this] show ?case .
qed

text \<open>
  C6, as the code has it. A record observed exactly at \<open>now - SlidingWindowSize\<close> is
  not \<^verbatim>\<open>Before\<close> the expiration time and is kept. And with the least 64-bit integer as
  \<open>SlidingWindowSize\<close> the negation \<^verbatim>\<open>-time.Duration(SlidingWindowSize)\<close> wraps around to
  the same value: the expiration time lies \<open>2 ^ 63\<close> ns in the past, and a record older
  than the configured duration is kept.
\<close>

theorem C6_time_based_pruning_counterexample:
  "requests (enforceTimeBasedWindow boundaryWindow 5000) =
     [\<lparr>failed = False, slow = False, executionTime = 4000\<rparr>] \<and>
   (4000 :: int) \<le> 5000 - SlidingWindowSize (config boundaryWindow) \<and>
   requests (enforceTimeBasedWindow minIntWindow 5000) =
     [\<lparr>failed = False, slow = False, executionTime = 4000\<rparr>] \<and>
   SlidingWindowSize (config minIntWindow) < 5000 - 4000"
  by code_simp

text \<open>
  C6, amended. For a configured duration other than the least 64-bit integer,
  time-based pruning removes the oldest records while their timestamp is strictly
  before \<open>now - SlidingWindowSize\<close> and stops at the first record that is not; a record
  observed exactly at that instant is kept, so the oldest retained record is no older
  than the configured duration. Every sequence of calls on a new breaker with a
  time-based window returns, and when the clock readings stored with the records do
  not decrease along the sequence, the window is in timestamp order and after pruning
  it, at any time, no retained record is older than the configured duration.
\<close>

theorem C6_time_based_pruning:
  "(- (2 ^ 63) < SlidingWindowSize (config cb) \<and> SlidingWindowSize (config cb) < 2 ^ 63 \<longrightarrow>
      requests (enforceTimeBasedWindow cb now) =
        dropWhile (\<lambda>e. executionTime e < now - SlidingWindowSize (config cb)) (requests cb) \<and>
      (\<forall>e rest. requests (enforceTimeBasedWindow cb now) = e # rest \<longrightarrow>
         now - executionTime e \<le> SlidingWindowSize (config cb))) \<and>
   (SlidingWindowType c = TIME_BASED \<and>
    - (2 ^ 63) < SlidingWindowSize c \<and> SlidingWindowSize c < 2 ^ 63 \<and>
    sorted (map now_push calls) \<longrightarrow>
      (\<exists>cb'. run (NewCircuitBreaker c) calls = Some (Inr cb') \<and>
         sorted (map executionTime (requests cb')) \<and>
         (\<forall>e \<in> set (requests (enforceTimeBasedWindow cb' now)).
            now - executionTime e \<le> SlidingWindowSize c)))"
proof (intro conjI allI impI)
  assume r: "- (2 ^ 63) < SlidingWindowSize (config cb) \<and> SlidingWindowSize (config cb) < 2 ^ 63"
  then show d: "requests (enforceTimeBasedWindow cb now) =
     dropWhile (\<lambda>e. executionTime e < now - SlidingWindowSize (config cb)) (requests cb)"
    by (simp add: enforceTimeBasedWindow_in_range)
  fix e rest
  assume "requests (enforceTimeBasedWindow cb now) = e # rest"
  with d have "dropWhile (\<lambda>e. executionTime e < now - SlidingWindowSize (config cb)) (requests cb)
      = e # rest"
    by simp
  from hd_dropWhile[of "\<lambda>e. executionTime e < now - SlidingWindowSize (config cb)" "requests cb"]
    this
  show "now - executionTime e \<le> SlidingWindowSize (config cb)" by auto
next
  assume a: "SlidingWindowType c = TIME_BASED \<and>
    - (2 ^ 63) < SlidingWindowSize c \<and> SlidingWindowSize c < 2 ^ 63 \<and>
    sorted (map now_push calls)"
  have n: "config (NewCircuitBreaker c) = c" "requests (NewCircuitBreaker c) = []"
    by (simp_all add: NewCircuitBreaker_def)
  from a have "SlidingWindowType (config (NewCircuitBreaker c)) \<noteq> COUNT_BASED"
    by (simp add: n COUNT_BASED_def TIME_BASED_def)
  then have "1 \<le> SlidingWindowSize (config (NewCircuitBreaker c)) \<or>
      SlidingWindowType (config (NewCircuitBreaker c)) \<noteq> COUNT_BASED" by simp
  from run_returns[OF this, of calls] n obtain cb' where
    r: "run (NewCircuitBreaker c) calls = Some (Inr cb')" and c: "config cb' = c"
    by auto
  from a n have s: "sorted (map executionTime (requests cb'))"
    by (intro run_keeps_time_order[OF r]) simp_all
  from a c have "requests (enforceTimeBasedWindow cb' now) =
     dropWhile (\<lambda>e. executionTime e < now - SlidingWindowSize c) (requests cb')"
    using enforceTimeBasedWindow_in_range[of cb' now] by simp
  with sorted_dropWhile_all[OF s, of "now - SlidingWindowSize c"]
  have "\<forall>e \<in> set (requests (enforceTimeBasedWindow cb' now)).
            now - executionTime e \<le> SlidingWindowSize c"
    by auto
  with r s show "\<exists>cb'. run (NewCircuitBreaker c) calls = Some (Inr cb') \<and>
         sorted (map executionTime (requests cb')) \<and>
         (\<forall>e \<in> set (requests (enforceTimeBasedWindow cb' now)).
            now - executionTime e \<le> SlidingWindowSize c)"
    by blast
qed

lemma agedWindow_pruned:
  "map executionTime (requests (enforceTimeBasedWindow agedWindow 40)) = [30, 40] \<and>
   map executionTime (requests agedWindow) = [10, 20, 30, 40] \<and>
   SlidingWindowSize (config agedWindow) = 15"
  by code_simp

lemma timed_run:
  "case run (NewCircuitBreaker (config expiredWindow))
          [failingCall 0, succeedingCall 500, failingCall 900] of
     Some (Inr cb') \<Rightarrow>
       map executionTime (requests cb') = [1000, 1500, 1900] \<and>
       map executionTime (requests (enforceTimeBasedWindow cb' 2600)) = [1900]
   | _ \<Rightarrow> False"
  by code_simp

theorem C6_time_based_pruning_witness:
  "map executionTime (requests (enforceTimeBasedWindow agedWindow 40)) = [30, 40] \<and>
   40 - executionTime (hd (requests (enforceTimeBasedWindow agedWindow 40))) \<le> 15 \<and>
   (\<exists>cb'. run (NewCircuitBreaker (config expiredWindow))
             [failingCall 0, succeedingCall 500, failingCall 900] = Some (Inr cb') \<and>
      map executionTime (requests cb') = [1000, 1500, 1900] \<and>
      map executionTime (requests (enforceTimeBasedWindow cb' 2600)) = [1900] \<and>
      list_all (\<lambda>e. 2600 - executionTime e \<le> 1000) (requests (enforceTimeBasedWindow cb' 2600)))"
proof -
  note front = C6_time_based_pruning[of agedWindow 40 "config expiredWindow"
      "[failingCall 0, succeedingCall 500, failingCall 900]"]
  note reached = C6_time_based_pruning[of agedWindow 2600 "config expiredWindow"
      "[failingCall 0, succeedingCall 500, failingCall 900]"]
  from agedWindow_pruned have z: "SlidingWindowSize (config agedWindow) = 15" by simp
  have h: "SlidingWindowType (config expiredWindow) = TIME_BASED"
    "SlidingWindowSize (config expiredWindow) = 1000"
    "sorted (map now_push [failingCall 0, succeedingCall 500, failingCall 900])"
    by (simp_all add: expiredWindow_def failingCall_def succeedingCall_def)
  from front z have "\<forall>e rest. requests (enforceTimeBasedWindow agedWindow 40) = e # rest \<longrightarrow>
      40 - executionTime e \<le> 15"
    by (elim conjE) simp
  moreover from agedWindow_pruned obtain e rest where
    "requests (enforceTimeBasedWindow agedWindow 40) = e # rest"
    by (cases "requests (enforceTimeBasedWindow agedWindow 40)") auto
  ultimately have
    a: "40 - executionTime (hd (requests (enforceTimeBasedWindow agedWindow 40))) \<le> 15"
    by simp
  from reached h obtain cb' where
    r: "run (NewCircuitBreaker (config expiredWindow))
          [failingCall 0, succeedingCall 500, failingCall 900] = Some (Inr cb')" and
    b: "\<forall>e \<in> set (requests (enforceTimeBasedWindow cb' 2600)). 2600 - executionTime e \<le> 1000"
    by (elim conjE) auto
  from timed_run r have
    "map executionTime (requests cb') = [1000, 1500, 1900]"
    "map executionTime (requests (enforceTimeBasedWindow cb' 2600)) = [1900]"
    by simp_all
  with r b have "\<exists>cb'. run (NewCircuitBreaker (config expiredWindow))
             [failingCall 0, succeedingCall 500, failingCall 900] = Some (Inr cb') \<and>
      map executionTime (requests cb') = [1000, 1500, 1900] \<and>
      map executionTime (requests (enforceTimeBasedWindow cb' 2600)) = [1900] \<and>
      list_all (\<lambda>e. 2600 - executionTime e \<le> 1000) (requests (enforceTimeBasedWindow cb' 2600))"
    by (simp add: list_all_iff)
  with a agedWindow_pruned show ?thesis by simp
qed

section \<open>The configuration field SlidingWindowTime\<close>

lemma withSlidingWindowTime_simps:
  "requests (withSlidingWindowTime d cb) = requests cb"
  "state (withSlidingWindowTime d cb) = state cb"
  "halfOpenCalls (withSlidingWindowTime d cb) = halfOpenCalls cb"
  "lastFailureTime (withSlidingWindowTime d cb) = lastFailureTime cb"
  "failureCount (withSlidingWindowTime d cb) = failureCount cb"
  "slowCallCount (withSlidingWindowTime d cb) = slowCallCount cb"
  "Name (config (withSlidingWindowTime d cb)) = Name (config cb)"
  "FailureRateThreshold (config (withSlidingWindowTime d cb)) = FailureRateThreshold (config cb)"
  "MinimumNumberOfCalls (config (withSlidingWindowTime d cb)) = MinimumNumberOfCalls (config cb)"
  "PermittedNumberOfCallsInHalfOpenState (config (withSlidingWindowTime d cb)) =
     PermittedNumberOfCallsInHalfOpenState (config cb)"
  "WaitDurationInOpenState (config (withSlidingWindowTime d cb)) = WaitDurationInOpenState (config cb)"
  "SlidingWindowSize (config (withSlidingWindowTime d cb)) = SlidingWindowSize (config cb)"
  "SlidingWindowType (config (withSlidingWindowTime d cb)) = SlidingWindowType (config cb)"
  "SlowCallDurationThreshold (config (withSlidingWindowTime d cb)) =
     SlowCallDurationThreshold (config cb)"
  "SlowCallRateThreshold (config (withSlidingWindowTime d cb)) = SlowCallRateThreshold (config cb)"
  by (simp_all add: withSlidingWindowTime_def)

lemma withSlidingWindowTime_back:
  "withSlidingWindowTime (SlidingWindowTime (config cb)) (withSlidingWindowTime d cb) = cb"
  by (simp add: withSlidingWindowTime_def)

lemma removeFrontRequest_ignores:
  "removeFrontRequest (withSlidingWindowTime d cb) = withSlidingWindowTime d (removeFrontRequest cb)"
  by (simp add: removeFrontRequest_def withSlidingWindowTime_def split: list.splits)

lemma enforceCountBasedWindow_ignores_Some:
  assumes "enforceCountBasedWindow cb = Some cb'"
  shows "enforceCountBasedWindow (withSlidingWindowTime d cb) = Some (withSlidingWindowTime d cb')"
proof (rule enforceCountBasedWindow.raw_induct
    [where P = "\<lambda>x y. enforceCountBasedWindow (withSlidingWindowTime d x)
                          = Some (withSlidingWindowTime d y)", OF _ assms])
  fix loop :: "CircuitBreaker \<Rightarrow> CircuitBreaker option" and x y
  assume IH: "\<And>x y. loop x = Some y \<Longrightarrow>
      enforceCountBasedWindow (withSlidingWindowTime d x) = Some (withSlidingWindowTime d y)"
    and step: "(if SlidingWindowSize (config x) \<le> int (length (requests x))
           then if requests x \<noteq> [] then loop (removeFrontRequest x) else loop x
           else Some x) = Some y"
  show "enforceCountBasedWindow (withSlidingWindowTime d x) = Some (withSlidingWindowTime d y)"
  proof (cases "SlidingWindowSize (config x) \<le> int (length (requests x))")
    case False
    with step have "y = x" by simp
    with False show ?thesis
      by (subst enforceCountBasedWindow.simps) (simp add: withSlidingWindowTime_simps)
  next
    case True
    show ?thesis
    proof (cases "requests x = []")
      case True
      with \<open>SlidingWindowSize (config x) \<le> int (length (requests x))\<close> step
      have "loop x = Some y" by simp
      from IH[OF this] show ?thesis .
    next
      case False
      with True step have "loop (removeFrontRequest x) = Some y" by simp
      from IH[OF this] have
        "enforceCountBasedWindow (removeFrontRequest (withSlidingWindowTime d x))
           = Some (withSlidingWindowTime d y)"
        by (simp add: removeFrontRequest_ignores)
      with True False show ?thesis
        by (subst enforceCountBasedWindow.simps) (simp add: withSlidingWindowTime_simps)
    qed
  qed
qed

lemma enforceCountBasedWindow_ignores:
  "enforceCountBasedWindow (withSlidingWindowTime d cb) =
     map_option (withSlidingWindowTime d) (enforceCountBasedWindow cb)"
proof (cases "enforceCountBasedWindow cb")
  case (Some cb')
  from enforceCountBasedWindow_ignores_Some[OF this] Some show ?thesis by simp
next
  case None
  have "enforceCountBasedWindow (withSlidingWindowTime d cb) = None"
  proof (cases "enforceCountBasedWindow (withSlidingWindowTime d cb)")
    case None then show ?thesis .
  next
    case (Some z)
    from enforceCountBasedWindow_ignores_Some[OF Some, of "SlidingWindowTime (config cb)"]
    have "enforceCountBasedWindow cb \<noteq> None"
      by (simp add: withSlidingWindowTime_back)
    with \<open>enforceCountBasedWindow cb = None\<close> show ?thesis by simp
  qed
  with None show ?thesis by simp
qed

lemma enforceTimeBasedLoop_ignores:
  "enforceTimeBasedLoop (withSlidingWindowTime d cb) t =
     withSlidingWindowTime d (enforceTimeBasedLoop cb t)"
proof (induction cb t rule: enforceTimeBasedLoop.induct)
  case (1 cb t)
  show ?case
  proof (cases "requests cb")
    case Nil
    then show ?thesis
      by (simp add: enforceTimeBasedLoop_Nil withSlidingWindowTime_simps)
  next
    case (Cons e es)
    with 1 show ?thesis
      by (simp add: enforceTimeBasedLoop_Cons[of _ e es] withSlidingWindowTime_simps
            removeFrontRequest_ignores)
  qed
qed

lemma cleanupOldRequests_ignores:
  "cleanupOldRequests (withSlidingWindowTime d cb) now =
     map_option (withSlidingWindowTime d) (cleanupOldRequests cb now)"
  by (simp add: cleanupOldRequests_def enforceTimeBasedWindow_def withSlidingWindowTime_simps
        enforceCountBasedWindow_ignores enforceTimeBasedLoop_ignores)

lemma addRequest_ignores:
  "addRequest (withSlidingWindowTime d cb) f s tp tq =
     map_option (withSlidingWindowTime d) (addRequest cb f s tp tq)"
proof (cases "cleanupOldRequests cb tp")
  case None
  then show ?thesis by (simp add: addRequest_def cleanupOldRequests_ignores)
next
  case (Some cb0)
  have "cleanupOldRequests (withSlidingWindowTime d cb) tp = Some (withSlidingWindowTime d cb0)"
    by (simp add: cleanupOldRequests_ignores Some)
  with Some show ?thesis
    by (simp add: addRequest_def Let_def) (simp add: withSlidingWindowTime_def)
qed

lemma rates_ignore:
  "getFailureRate (withSlidingWindowTime d cb) = getFailureRate cb"
  "getSlowCallRate (withSlidingWindowTime d cb) = getSlowCallRate cb"
  by (simp_all add: getFailureRate_def getSlowCallRate_def withSlidingWindowTime_simps)

lemma recordResult_ignores:
  "recordResult (withSlidingWindowTime d cb) err isSlow tp tq te =
     map_option (map_sum id (withSlidingWindowTime d)) (recordResult cb err isSlow tp tq te)"
proof (cases "addRequest cb (err \<noteq> None) isSlow tp tq")
  case None
  then show ?thesis by (simp add: recordResult_def addRequest_ignores)
next
  case (Some cb1)
  show ?thesis
  proof (cases "state cb1")
    case None
    with Some show ?thesis
      by (simp add: recordResult_def addRequest_ignores withSlidingWindowTime_simps)
  next
    case (Some s)
    with \<open>addRequest cb (err \<noteq> None) isSlow tp tq = Some cb1\<close> show ?thesis
      by (cases s)
         (simp_all add: recordResult_def addRequest_ignores withSlidingWindowTime_simps
            rates_ignore SetState_def, auto simp: withSlidingWindowTime_def)
  qed
qed

lemma preAdmission_ignores:
  "preAdmission (withSlidingWindowTime d cb) now =
     (case preAdmission cb now of
        Rejected msg cb1 \<Rightarrow> Rejected msg (withSlidingWindowTime d cb1)
      | Admitted cb1 \<Rightarrow> Admitted (withSlidingWindowTime d cb1))"
  by (simp add: preAdmission_def IsOpen_def IsHalfOpen_def SetState_def
        withSlidingWindowTime_simps Let_def)
     (simp add: withSlidingWindowTime_def)

lemma Execute_ignores:
  "Execute (withSlidingWindowTime d cb) call =
     map_option (map_sum id (\<lambda>r. r\<lparr>breaker := withSlidingWindowTime d (breaker r)\<rparr>))
       (Execute cb call)"
proof (cases "preAdmission cb (now_admit call)")
  case (Rejected msg cb1)
  then show ?thesis by (simp add: Execute_def preAdmission_ignores)
next
  case (Admitted cb1)
  let ?slow = "SlowCallDurationThreshold (config cb1) \<le> action_duration call"
  show ?thesis
  proof (cases "recordResult cb1 (action_err call) ?slow (now_prune call) (now_push call)
                  (now_eval call)")
    case None
    with Admitted show ?thesis
      by (simp add: Execute_def preAdmission_ignores recordResult_ignores
            withSlidingWindowTime_simps Let_def)
  next
    case (Some res)
    with Admitted show ?thesis
      by (cases res)
         (simp_all add: Execute_def preAdmission_ignores recordResult_ignores
            withSlidingWindowTime_simps Let_def)
  qed
qed

lemma addRequest_scan_ignores:
  "addRequest_scan (withSlidingWindowTime_scan d cb) f s =
     withSlidingWindowTime_scan d (addRequest_scan cb f s)"
  by (simp add: addRequest_scan_def withSlidingWindowTime_scan_def Let_def split: list.splits)

lemma rates_scan_ignore:
  "getFailureRate_scan (withSlidingWindowTime_scan d cb) = getFailureRate_scan cb"
  "getSlowCallRate_scan (withSlidingWindowTime_scan d cb) = getSlowCallRate_scan cb"
  by (simp_all add: getFailureRate_scan_def getSlowCallRate_scan_def withSlidingWindowTime_scan_def)

lemma withSlidingWindowTime_scan_simps:
  "requests_scan (withSlidingWindowTime_scan d cb) = requests_scan cb"
  "state_scan (withSlidingWindowTime_scan d cb) = state_scan cb"
  "halfOpenCalls_scan (withSlidingWindowTime_scan d cb) = halfOpenCalls_scan cb"
  "lastFailureTime_scan (withSlidingWindowTime_scan d cb) = lastFailureTime_scan cb"
  "FailureRateThreshold (config_scan (withSlidingWindowTime_scan d cb)) =
     FailureRateThreshold (config_scan cb)"
  "MinimumNumberOfCalls (config_scan (withSlidingWindowTime_scan d cb)) =
     MinimumNumberOfCalls (config_scan cb)"
  "PermittedNumberOfCallsInHalfOpenState (config_scan (withSlidingWindowTime_scan d cb)) =
     PermittedNumberOfCallsInHalfOpenState (config_scan cb)"
  "WaitDurationInOpenState (config_scan (withSlidingWindowTime_scan d cb)) =
     WaitDurationInOpenState (config_scan cb)"
  "SlowCallDurationThreshold (config_scan (withSlidingWindowTime_scan d cb)) =
     SlowCallDurationThreshold (config_scan cb)"
  "SlowCallRateThreshold (config_scan (withSlidingWindowTime_scan d cb)) =
     SlowCallRateThreshold (config_scan cb)"
  by (simp_all add: withSlidingWindowTime_scan_def)

lemma recordResult_scan_ignores:
  "recordResult_scan (withSlidingWindowTime_scan d cb) err isSlow te =
     map_sum id (withSlidingWindowTime_scan d) (recordResult_scan cb err isSlow te)"
proof -
  define cb1 where "cb1 = addRequest_scan cb (err \<noteq> None) isSlow"
  have a: "addRequest_scan (withSlidingWindowTime_scan d cb) (err \<noteq> None) isSlow =
           withSlidingWindowTime_scan d cb1"
    by (simp add: cb1_def addRequest_scan_ignores)
  show ?thesis
  proof (cases "state_scan cb1")
    case None
    then show ?thesis
      unfolding recordResult_scan_def Let_def a cb1_def[symmetric]
      by (simp add: withSlidingWindowTime_scan_simps)
  next
    case (Some s)
    then show ?thesis
      unfolding recordResult_scan_def Let_def a cb1_def[symmetric]
      by (cases s)
         (simp_all add: withSlidingWindowTime_scan_simps rates_scan_ignore,
          auto simp: withSlidingWindowTime_scan_def SetState_scan_def)
  qed
qed

lemma preAdmission_scan_ignores:
  "preAdmission_scan (withSlidingWindowTime_scan d cb) now =
     (case preAdmission_scan cb now of
        Rejected_scan msg cb1 \<Rightarrow> Rejected_scan msg (withSlidingWindowTime_scan d cb1)
      | Admitted_scan cb1 \<Rightarrow> Admitted_scan (withSlidingWindowTime_scan d cb1))"
  by (simp add: preAdmission_scan_def IsOpen_scan_def IsHalfOpen_scan_def SetState_scan_def
        withSlidingWindowTime_scan_def Let_def)

lemma Execute_scan_ignores:
  "Execute_scan (withSlidingWindowTime_scan d cb) call =
     map_sum id (\<lambda>r. r\<lparr>breaker_scan := withSlidingWindowTime_scan d (breaker_scan r)\<rparr>)
       (Execute_scan cb call)"
proof (cases "preAdmission_scan cb (now_admit call)")
  case (Rejected_scan msg cb1)
  then show ?thesis by (simp add: Execute_scan_def preAdmission_scan_ignores)
next
  case (Admitted_scan cb1)
  have c: "SlowCallDurationThreshold (config_scan (withSlidingWindowTime_scan d cb1)) =
           SlowCallDurationThreshold (config_scan cb1)"
    by (simp add: withSlidingWindowTime_scan_def)
  show ?thesis
    by (cases "recordResult_scan cb1 (action_err call)
                 (SlowCallDurationThreshold (config_scan cb1) \<le> action_duration call)
                 (now_eval call)")
       (simp_all add: Execute_scan_def preAdmission_scan_ignores Admitted_scan
          recordResult_scan_ignores c Let_def)
qed

text \<open>
  C10, as the code has it. With the least 64-bit integer as \<open>SlidingWindowSize\<close> the
  negation \<^verbatim>\<open>-time.Duration(SlidingWindowSize)\<close> wraps around to the same value, so the
  expiration time is \<open>now - 2 ^ 63\<close> and not \<open>now - SlidingWindowSize\<close>: a record observed
  before \<open>now - SlidingWindowSize\<close> is kept.
\<close>

theorem C10_time_window_horizon_counterexample:
  "SlidingWindowType (config minIntWindow) = TIME_BASED \<and>
   map_option requests (cleanupOldRequests minIntWindow 5000) =
     Some [\<lparr>failed = False, slow = False, executionTime = 4000\<rparr>] \<and>
   (4000 :: int) < 5000 - SlidingWindowSize (config minIntWindow) \<and>
   5000 + wrap64 (- SlidingWindowSize (config minIntWindow)) = 5000 - 2 ^ 63"
  by code_simp

text \<open>
  C10, amended. For a breaker configured with \<open>SlidingWindowType = TIME_BASED\<close>, pruning
  drops the oldest records observed before \<open>now + wrap64 (- SlidingWindowSize)\<close>, which is
  \<open>now - SlidingWindowSize\<close> for every size other than the least 64-bit integer: the size
  field, read as a number of nanoseconds, is the window duration. No operation reads
  \<open>SlidingWindowTime\<close>, a field that only the repository's alternate declaration of
  \<open>Config\<close> has: in both engines \<open>Execute\<close> on a breaker that differs in this field only
  returns the same error, invokes the action or not alike, and leaves a breaker that
  differs in this field only (and does not return when the other does not).
\<close>

theorem C10_time_window_horizon:
  "(SlidingWindowType (config cb) = TIME_BASED \<longrightarrow>
      cleanupOldRequests cb now =
        Some (enforceTimeBasedLoop cb (now + wrap64 (- SlidingWindowSize (config cb)))) \<and>
      (- (2 ^ 63) < SlidingWindowSize (config cb) \<and> SlidingWindowSize (config cb) < 2 ^ 63 \<longrightarrow>
         cleanupOldRequests cb now =
           Some (enforceTimeBasedLoop cb (now - SlidingWindowSize (config cb))) \<and>
         requests (enforceTimeBasedLoop cb (now - SlidingWindowSize (config cb))) =
           dropWhile (\<lambda>e. executionTime e < now - SlidingWindowSize (config cb)) (requests cb))) \<and>
   Execute (withSlidingWindowTime d cb) call =
     map_option (map_sum id (\<lambda>r. r\<lparr>breaker := withSlidingWindowTime d (breaker r)\<rparr>))
       (Execute cb call) \<and>
   Execute_scan (withSlidingWindowTime_scan d cbs) call =
     map_sum id (\<lambda>r. r\<lparr>breaker_scan := withSlidingWindowTime_scan d (breaker_scan r)\<rparr>)
       (Execute_scan cbs call)"
proof (intro conjI impI)
  assume t: "SlidingWindowType (config cb) = TIME_BASED"
  then show w: "cleanupOldRequests cb now =
        Some (enforceTimeBasedLoop cb (now + wrap64 (- SlidingWindowSize (config cb))))"
    by (simp add: cleanupOldRequests_def enforceTimeBasedWindow_def COUNT_BASED_def TIME_BASED_def)
  assume "- (2 ^ 63) < SlidingWindowSize (config cb) \<and> SlidingWindowSize (config cb) < 2 ^ 63"
  then have "wrap64 (- SlidingWindowSize (config cb)) = - SlidingWindowSize (config cb)"
    by (simp add: wrap64_neg)
  with w show "cleanupOldRequests cb now =
        Some (enforceTimeBasedLoop cb (now - SlidingWindowSize (config cb)))"
    by simp
next
  show "requests (enforceTimeBasedLoop cb (now - SlidingWindowSize (config cb))) =
        dropWhile (\<lambda>e. executionTime e < now - SlidingWindowSize (config cb)) (requests cb)"
    by (rule enforceTimeBasedLoop_requests)
next
  show "Execute (withSlidingWindowTime d cb) call =
     map_option (map_sum id (\<lambda>r. r\<lparr>breaker := withSlidingWindowTime d (breaker r)\<rparr>))
       (Execute cb call)"
    by (rule Execute_ignores)
next
  show "Execute_scan (withSlidingWindowTime_scan d cbs) call =
     map_sum id (\<lambda>r. r\<lparr>breaker_scan := withSlidingWindowTime_scan d (breaker_scan r)\<rparr>)
       (Execute_scan cbs call)"
    by (rule Execute_scan_ignores)
qed

lemma agedWindow_call:
  "SlidingWindowType (config agedWindow) = TIME_BASED \<and>
   SlidingWindowSize (config agedWindow) = 15 \<and>
   SlidingWindowTime (config agedWindow) = 0 \<and>
   map executionTime (requests agedWindow) = [10, 20, 30, 40] \<and>
   map_option (map_sum id (\<lambda>r. map executionTime (requests (breaker r))))
     (Execute agedWindow callAt40) = Some (Inr [30, 40, 40])"
  by code_simp

theorem C10_time_window_horizon_witness:
  "SlidingWindowType (config agedWindow) = TIME_BASED \<and>
   map_option (map executionTime \<circ> requests) (cleanupOldRequests agedWindow 40)
     = Some [30, 40] \<and>
   map_option (map_sum id (\<lambda>r. map executionTime (requests (breaker r))))
     (Execute (withSlidingWindowTime 1000000 agedWindow) callAt40) = Some (Inr [30, 40, 40])"
proof -
  note c10 = C10_time_window_horizon[of agedWindow 40 1000000 callAt40 openBreaker_scan]
  from agedWindow_call have t: "SlidingWindowType (config agedWindow) = TIME_BASED"
    and z: "SlidingWindowSize (config agedWindow) = 15"
    and w: "map executionTime (requests agedWindow) = [10, 20, 30, 40]"
    by simp_all
  from z have rng: "- (2 ^ 63) < SlidingWindowSize (config agedWindow) \<and>
      SlidingWindowSize (config agedWindow) < 2 ^ 63"
    by simp
  from c10 t rng have
    "cleanupOldRequests agedWindow 40 =
       Some (enforceTimeBasedLoop agedWindow (40 - SlidingWindowSize (config agedWindow)))"
    "requests (enforceTimeBasedLoop agedWindow (40 - SlidingWindowSize (config agedWindow))) =
       dropWhile (\<lambda>e. executionTime e < 40 - SlidingWindowSize (config agedWindow))
         (requests agedWindow)"
    by blast+
  then have "map_option (map executionTime \<circ> requests) (cleanupOldRequests agedWindow 40) =
      Some (dropWhile (\<lambda>t. t < 25) (map executionTime (requests agedWindow)))"
    by (simp add: z dropWhile_map comp_def)
  with w have a: "map_option (map executionTime \<circ> requests) (cleanupOldRequests agedWindow 40)
      = Some [30, 40]"
    by simp
  from c10 have "Execute (withSlidingWindowTime 1000000 agedWindow) callAt40 =
     map_option (map_sum id (\<lambda>r. r\<lparr>breaker := withSlidingWindowTime 1000000 (breaker r)\<rparr>))
       (Execute agedWindow callAt40)"
    by blast
  then have "map_option (map_sum id (\<lambda>r. map executionTime (requests (breaker r))))
     (Execute (withSlidingWindowTime 1000000 agedWindow) callAt40) =
     map_option (map_sum id (\<lambda>r. map executionTime (requests (breaker r))))
       (Execute agedWindow callAt40)"
    by (simp add: option.map_comp sum.map_comp comp_def withSlidingWindowTime_simps id_def)
  with agedWindow_call a t show ?thesis by simp
qed

section \<open>The recovery scenario\<close>

lemma Execute_closed_failure:
  assumes "SlidingWindowSize c = 10" "SlidingWindowType c = COUNT_BASED"
    "MinimumNumberOfCalls c = 6" "FailureRateThreshold c = 50"
    and "state cb = Some Closed" "config cb = c" "length (requests cb) < 6"
    "list_all failed (requests cb)" "exactCounters cb"
    and "action_err call \<noteq> None"
  shows "Execute cb call =
     Some (Inr \<lparr>returned = map_option action_error (action_err call), invoked = True,
                breaker =
                  (if length (requests cb) = 5
                   then cb\<lparr>requests := requests cb @ [entryOf c call],
                           failureCount := failureCount cb + 1,
                           state := Some Open, lastFailureTime := now_eval call\<rparr>
                   else cb\<lparr>requests := requests cb @ [entryOf c call],
                           failureCount := failureCount cb + 1\<rparr>)\<rparr>)"
proof -
  have p: "preAdmission cb (now_admit call) = Admitted cb"
    using assms(5) by (simp add: preAdmission_def IsOpen_def IsHalfOpen_def)
  have e: "enforceCountBasedWindow cb = Some cb"
    using assms(1,6,7) by (subst enforceCountBasedWindow.simps) simp
  let ?slow = "SlowCallDurationThreshold c \<le> action_duration call"
  let ?cb1 = "cb\<lparr>requests := requests cb @ [entryOf c call],
                  failureCount := failureCount cb + 1\<rparr>"
  have a: "addRequest cb (action_err call \<noteq> None) ?slow (now_prune call) (now_push call) = Some ?cb1"
    using e assms(2,6,10)
    by (simp add: addRequest_def cleanupOldRequests_def entryOf_def Let_def)
  have fc: "failureCount cb = int (length (requests cb))"
    using assms(8,9) by (simp add: exactCounters_def list_all_iff)
  have rate: "getFailureRate ?cb1 = Finite 100"
  proof -
    have "getFailureRate ?cb1 =
        percentage (int (length (requests cb)) + 1) (int (length (requests cb)) + 1)"
      using fc by (simp add: getFailureRate_eq add.commute)
    also have "\<dots> = Finite 100"
      using assms(7) by (intro percentage_all) simp_all
    finally show ?thesis .
  qed
  have "recordResult cb (action_err call) ?slow (now_prune call) (now_push call) (now_eval call) =
     Some (Inr (if length (requests cb) = 5
                then ?cb1\<lparr>state := Some Open, lastFailureTime := now_eval call\<rparr>
                else ?cb1))"
    using a assms(3,4,5,6,7) rate
    by (auto simp: recordResult_def SetState_def Let_def)
  with p assms(6) show ?thesis
    by (simp add: Execute_def Let_def)
qed

lemma Execute_half_open_success:
  assumes "SlidingWindowSize c = 10" "SlidingWindowType c = COUNT_BASED"
    "PermittedNumberOfCallsInHalfOpenState c = 3"
    and "state cb = Some HalfOpen" "config cb = c" "length (requests cb) < 10"
    "halfOpenCalls cb < 3"
    and "action_err call = None" "action_duration call < SlowCallDurationThreshold c"
  shows "Execute cb call =
     Some (Inr \<lparr>returned = None, invoked = True,
                breaker =
                  (if halfOpenCalls cb = 2
                   then cb\<lparr>requests := requests cb @ [entryOf c call],
                           state := Some Closed, halfOpenCalls := 0\<rparr>
                   else cb\<lparr>requests := requests cb @ [entryOf c call],
                           halfOpenCalls := halfOpenCalls cb + 1\<rparr>)\<rparr>)"
proof -
  let ?cb0 = "cb\<lparr>halfOpenCalls := halfOpenCalls cb + 1\<rparr>"
  have p: "preAdmission cb (now_admit call) = Admitted ?cb0"
    using assms(3,4,5,7) by (simp add: preAdmission_def IsOpen_def IsHalfOpen_def)
  have e: "enforceCountBasedWindow ?cb0 = Some ?cb0"
    using assms(1,5,6) by (subst enforceCountBasedWindow.simps) simp
  have s: "\<not> SlowCallDurationThreshold c \<le> action_duration call"
    using assms(9) by simp
  let ?cb1 = "?cb0\<lparr>requests := requests cb @ [entryOf c call]\<rparr>"
  have a: "addRequest ?cb0 (action_err call \<noteq> None)
             (SlowCallDurationThreshold c \<le> action_duration call)
             (now_prune call) (now_push call) = Some ?cb1"
    using e assms(2,5,8) s
    by (simp add: addRequest_def cleanupOldRequests_def entryOf_def Let_def)
  have "recordResult ?cb0 (action_err call)
          (SlowCallDurationThreshold c \<le> action_duration call)
          (now_prune call) (now_push call) (now_eval call) =
     Some (Inr (if halfOpenCalls cb = 2
                then ?cb1\<lparr>state := Some Closed, halfOpenCalls := 0\<rparr>
                else ?cb1))"
    using a assms(3,4,5,7,8) s
    by (auto simp: recordResult_def SetState_def Let_def)
  with p assms(5,8) show ?thesis
    by (simp add: Execute_def Let_def)
qed

lemma Execute_open_elapsed:
  assumes "state cb = Some Open"
    and "WaitDurationInOpenState (config cb) \<le> now_admit call - lastFailureTime cb"
  shows "preAdmission cb (now_admit call) =
           preAdmission (cb\<lparr>state := Some HalfOpen, halfOpenCalls := 0\<rparr>) (now_admit call)"
    and "Execute cb call = Execute (cb\<lparr>state := Some HalfOpen, halfOpenCalls := 0\<rparr>) call"
  using assms
  by (simp_all add: Execute_def preAdmission_def IsOpen_def IsHalfOpen_def SetState_def)

lemma windowAfter_failure:
  assumes "SlidingWindowSize c = 10" "SlidingWindowType c = COUNT_BASED"
    "MinimumNumberOfCalls c = 6" "FailureRateThreshold c = 50"
    and "list_all (\<lambda>f. action_err f \<noteq> None) fs" "length fs < 6" "action_err call \<noteq> None"
  shows "Execute (windowAfter c fs) call =
     Some (Inr \<lparr>returned = map_option action_error (action_err call), invoked = True,
                breaker =
                  (if length fs = 5
                   then (windowAfter c (fs @ [call]))
                          \<lparr>state := Some Open, lastFailureTime := now_eval call\<rparr>
                   else windowAfter c (fs @ [call]))\<rparr>)"
proof -
  have f: "list_all failed (requests (windowAfter c fs))"
    using assms(5) by (simp add: windowAfter_def list_all_iff entryOf_def)
  have x: "exactCounters (windowAfter c fs)"
    by (simp add: exactCounters_def windowAfter_def)
  have e: "failed (entryOf c call)" using assms(7) by (simp add: entryOf_def)
  have "Execute (windowAfter c fs) call =
     Some (Inr \<lparr>returned = map_option action_error (action_err call), invoked = True,
                breaker =
                  (if length (requests (windowAfter c fs)) = 5
                   then (windowAfter c fs)
                          \<lparr>requests := requests (windowAfter c fs) @ [entryOf c call],
                           failureCount := failureCount (windowAfter c fs) + 1,
                           state := Some Open, lastFailureTime := now_eval call\<rparr>
                   else (windowAfter c fs)
                          \<lparr>requests := requests (windowAfter c fs) @ [entryOf c call],
                           failureCount := failureCount (windowAfter c fs) + 1\<rparr>)\<rparr>)"
    by (rule Execute_closed_failure[OF assms(1-4) _ _ _ f x assms(7)])
       (simp_all add: windowAfter_def assms(6))
  with e show ?thesis by (simp add: windowAfter_def)
qed

lemma Execute_scan_closed_failure:
  assumes "SlidingWindowSize c = 10" "MinimumNumberOfCalls c = 6" "FailureRateThreshold c = 50"
    and "list_all (\<lambda>f. action_err f \<noteq> None) fs" "length fs < 6" "action_err call \<noteq> None"
  shows "Execute_scan (windowAfter_scan c fs) call =
     Inr \<lparr>returned_scan = map_option action_error (action_err call), invoked_scan = True,
          breaker_scan =
            (if length fs = 5
             then (windowAfter_scan c (fs @ [call]))
                    \<lparr>state_scan := Some Open, lastFailureTime_scan := now_eval call\<rparr>
             else windowAfter_scan c (fs @ [call]))\<rparr>"
proof -
  let ?cb = "windowAfter_scan c fs"
  have p: "preAdmission_scan ?cb (now_admit call) = Admitted_scan ?cb"
    by (simp add: preAdmission_scan_def IsOpen_scan_def IsHalfOpen_scan_def windowAfter_scan_def)
  have a: "addRequest_scan ?cb (action_err call \<noteq> None)
             (SlowCallDurationThreshold c \<le> action_duration call) =
           windowAfter_scan c (fs @ [call])"
    using assms(1,5)
    by (simp add: addRequest_scan_def windowAfter_scan_def entryOf_scan_def Let_def)
  have "filter failed_scan (map (entryOf_scan c) (fs @ [call])) = map (entryOf_scan c) (fs @ [call])"
    using assms(4,6) by (simp add: list_all_iff entryOf_scan_def)
  then have n: "failuresLoop (requests_scan (windowAfter_scan c (fs @ [call]))) 0 = int (length fs) + 1"
    by (simp add: failuresLoop_count windowAfter_scan_def del: filter_append map_append)
  have rate: "getFailureRate_scan (windowAfter_scan c (fs @ [call])) = Finite 100"
  proof -
    have "getFailureRate_scan (windowAfter_scan c (fs @ [call])) =
        percentage (int (length fs) + 1) (int (length fs) + 1)"
      using n
      by (simp add: getFailureRate_scan_def percentage_def windowAfter_scan_def add.commute)
    also have "\<dots> = Finite 100"
      using assms(5) by (intro percentage_all) simp_all
    finally show ?thesis .
  qed
  have "recordResult_scan ?cb (action_err call)
          (SlowCallDurationThreshold c \<le> action_duration call) (now_eval call) =
     Inr (if length fs = 5
          then (windowAfter_scan c (fs @ [call]))
                 \<lparr>state_scan := Some Open, lastFailureTime_scan := now_eval call\<rparr>
          else windowAfter_scan c (fs @ [call]))"
    unfolding recordResult_scan_def Let_def a
    using assms(2,3,5) rate
    by (auto simp: SetState_scan_def windowAfter_scan_def)
  with p show ?thesis
    by (simp add: Execute_scan_def Let_def windowAfter_scan_def)
qed

lemma Execute_scan_half_open_success:
  assumes "SlidingWindowSize c = 10" "PermittedNumberOfCallsInHalfOpenState c = 3"
    and "state_scan cb = Some HalfOpen" "config_scan cb = c" "length (requests_scan cb) < 10"
    "halfOpenCalls_scan cb < 3"
    and "action_err call = None" "action_duration call < SlowCallDurationThreshold c"
  shows "Execute_scan cb call =
     Inr \<lparr>returned_scan = None, invoked_scan = True,
          breaker_scan =
            (if halfOpenCalls_scan cb = 2
             then cb\<lparr>requests_scan := requests_scan cb @ [entryOf_scan c call],
                     state_scan := Some Closed, halfOpenCalls_scan := 0\<rparr>
             else cb\<lparr>requests_scan := requests_scan cb @ [entryOf_scan c call],
                     halfOpenCalls_scan := halfOpenCalls_scan cb + 1\<rparr>)\<rparr>"
proof -
  let ?cb0 = "cb\<lparr>halfOpenCalls_scan := halfOpenCalls_scan cb + 1\<rparr>"
  have p: "preAdmission_scan cb (now_admit call) = Admitted_scan ?cb0"
    using assms(2,3,4,6)
    by (simp add: preAdmission_scan_def IsOpen_scan_def IsHalfOpen_scan_def)
  have s: "\<not> SlowCallDurationThreshold c \<le> action_duration call"
    using assms(8) by simp
  let ?cb1 = "?cb0\<lparr>requests_scan := requests_scan cb @ [entryOf_scan c call]\<rparr>"
  have a: "addRequest_scan ?cb0 (action_err call \<noteq> None)
             (SlowCallDurationThreshold c \<le> action_duration call) = ?cb1"
    using assms(1,4,5,7) s
    by (simp add: addRequest_scan_def entryOf_scan_def Let_def)
  have "recordResult_scan ?cb0 (action_err call)
          (SlowCallDurationThreshold c \<le> action_duration call) (now_eval call) =
     Inr (if halfOpenCalls_scan cb = 2
          then ?cb1\<lparr>state_scan := Some Closed, halfOpenCalls_scan := 0\<rparr>
          else ?cb1)"
    unfolding recordResult_scan_def Let_def a
    using assms(2,3,4,6,7) s
    by (auto simp: SetState_scan_def)
  with p assms(4,7) show ?thesis
    by (simp add: Execute_scan_def Let_def)
qed

lemma Execute_scan_open_elapsed:
  assumes "state_scan cb = Some Open"
    and "WaitDurationInOpenState (config_scan cb) \<le> now_admit call - lastFailureTime_scan cb"
  shows "preAdmission_scan cb (now_admit call) =
           preAdmission_scan (cb\<lparr>state_scan := Some HalfOpen, halfOpenCalls_scan := 0\<rparr>)
             (now_admit call)"
    and "Execute_scan cb call =
           Execute_scan (cb\<lparr>state_scan := Some HalfOpen, halfOpenCalls_scan := 0\<rparr>) call"
  using assms
  by (simp_all add: Execute_scan_def preAdmission_scan_def IsOpen_scan_def IsHalfOpen_scan_def
        SetState_scan_def)

lemma half_open_step:
  assumes "SlidingWindowSize c = 10" "SlidingWindowType c = COUNT_BASED"
    "PermittedNumberOfCallsInHalfOpenState c = 3"
    and "state cb = Some HalfOpen" "config cb = c" "length (requests cb) < 10"
    "halfOpenCalls cb < 3"
    and "action_err call = None" "action_duration call < SlowCallDurationThreshold c"
  shows "\<exists>cb'. Execute cb call = Some (Inr \<lparr>returned = None, invoked = True, breaker = cb'\<rparr>) \<and>
           config cb' = c \<and> length (requests cb') = length (requests cb) + 1 \<and>
           (if halfOpenCalls cb = 2 then state cb' = Some Closed \<and> halfOpenCalls cb' = 0
            else state cb' = Some HalfOpen \<and> halfOpenCalls cb' = halfOpenCalls cb + 1)"
  using Execute_half_open_success[OF assms] assms(4,5) by simp

lemma half_open_step_scan:
  assumes "SlidingWindowSize c = 10" "PermittedNumberOfCallsInHalfOpenState c = 3"
    and "state_scan cb = Some HalfOpen" "config_scan cb = c" "length (requests_scan cb) < 10"
    "halfOpenCalls_scan cb < 3"
    and "action_err call = None" "action_duration call < SlowCallDurationThreshold c"
  shows "\<exists>cb'. Execute_scan cb call =
             Inr \<lparr>returned_scan = None, invoked_scan = True, breaker_scan = cb'\<rparr> \<and>
           config_scan cb' = c \<and> length (requests_scan cb') = length (requests_scan cb) + 1 \<and>
           (if halfOpenCalls_scan cb = 2
            then state_scan cb' = Some Closed \<and> halfOpenCalls_scan cb' = 0
            else state_scan cb' = Some HalfOpen \<and>
                 halfOpenCalls_scan cb' = halfOpenCalls_scan cb + 1)"
  using Execute_scan_half_open_success[OF assms] assms(3,4) by simp

lemma six_failures_open:
  fixes f1 :: "'a Call"
  assumes "SlidingWindowSize c = 10" "SlidingWindowType c = COUNT_BASED"
    "MinimumNumberOfCalls c = 6" "FailureRateThreshold c = 50"
    and "list_all (\<lambda>f. action_err f \<noteq> None) [f1, f2, f3, f4, f5, f6]"
  shows "run (NewCircuitBreaker c) [f1, f2, f3, f4, f5, f6] =
     Some (Inr ((windowAfter c [f1, f2, f3, f4, f5, f6])
                  \<lparr>state := Some Open, lastFailureTime := now_eval f6\<rparr>))"
proof -
  note step = windowAfter_failure[OF assms(1-4)]
  have n: "NewCircuitBreaker c = windowAfter c ([] :: 'a Call list)"
    by (simp add: NewCircuitBreaker_def windowAfter_def)
  from assms(5) step[of "[]" f1] have e1:
    "Execute (windowAfter c ([] :: 'a Call list)) f1 =
       Some (Inr \<lparr>returned = map_option action_error (action_err f1), invoked = True,
                  breaker = windowAfter c [f1]\<rparr>)"
    by simp
  from assms(5) step[of "[f1]" f2] have e2:
    "Execute (windowAfter c [f1]) f2 =
       Some (Inr \<lparr>returned = map_option action_error (action_err f2), invoked = True,
                  breaker = windowAfter c [f1, f2]\<rparr>)"
    by simp
  from assms(5) step[of "[f1, f2]" f3] have e3:
    "Execute (windowAfter c [f1, f2]) f3 =
       Some (Inr \<lparr>returned = map_option action_error (action_err f3), invoked = True,
                  breaker = windowAfter c [f1, f2, f3]\<rparr>)"
    by simp
  from assms(5) step[of "[f1, f2, f3]" f4] have e4:
    "Execute (windowAfter c [f1, f2, f3]) f4 =
       Some (Inr \<lparr>returned = map_option action_error (action_err f4), invoked = True,
                  breaker = windowAfter c [f1, f2, f3, f4]\<rparr>)"
    by simp
  from assms(5) step[of "[f1, f2, f3, f4]" f5] have e5:
    "Execute (windowAfter c [f1, f2, f3, f4]) f5 =
       Some (Inr \<lparr>returned = map_option action_error (action_err f5), invoked = True,
                  breaker = windowAfter c [f1, f2, f3, f4, f5]\<rparr>)"
    by simp
  from assms(5) step[of "[f1, f2, f3, f4, f5]" f6] have e6:
    "Execute (windowAfter c [f1, f2, f3, f4, f5]) f6 =
       Some (Inr \<lparr>returned = map_option action_error (action_err f6), invoked = True,
                  breaker = (windowAfter c [f1, f2, f3, f4, f5, f6])
                              \<lparr>state := Some Open, lastFailureTime := now_eval f6\<rparr>\<rparr>)"
    by simp
  from n e1 e2 e3 e4 e5 e6 show ?thesis by simp
qed

lemma six_failures_open_scan:
  fixes f1 :: "'a Call"
  assumes "SlidingWindowSize c = 10" "MinimumNumberOfCalls c = 6" "FailureRateThreshold c = 50"
    and "list_all (\<lambda>f. action_err f \<noteq> None) [f1, f2, f3, f4, f5, f6]"
  shows "run_scan (NewCircuitBreaker_scan c) [f1, f2, f3, f4, f5, f6] =
     Inr ((windowAfter_scan c [f1, f2, f3, f4, f5, f6])
            \<lparr>state_scan := Some Open, lastFailureTime_scan := now_eval f6\<rparr>)"
proof -
  note step = Execute_scan_closed_failure[OF assms(1-3)]
  have n: "NewCircuitBreaker_scan c = windowAfter_scan c ([] :: 'a Call list)"
    by (simp add: NewCircuitBreaker_scan_def windowAfter_scan_def)
  from assms(4) step[of "[]" f1] have e1:
    "Execute_scan (windowAfter_scan c ([] :: 'a Call list)) f1 =
       Inr \<lparr>returned_scan = map_option action_error (action_err f1), invoked_scan = True,
            breaker_scan = windowAfter_scan c [f1]\<rparr>"
    by simp
  from assms(4) step[of "[f1]" f2] have e2:
    "Execute_scan (windowAfter_scan c [f1]) f2 =
       Inr \<lparr>returned_scan = map_option action_error (action_err f2), invoked_scan = True,
            breaker_scan = windowAfter_scan c [f1, f2]\<rparr>"
    by simp
  from assms(4) step[of "[f1, f2]" f3] have e3:
    "Execute_scan (windowAfter_scan c [f1, f2]) f3 =
       Inr \<lparr>returned_scan = map_option action_error (action_err f3), invoked_scan = True,
            breaker_scan = windowAfter_scan c [f1, f2, f3]\<rparr>"
    by simp
  from assms(4) step[of "[f1, f2, f3]" f4] have e4:
    "Execute_scan (windowAfter_scan c [f1, f2, f3]) f4 =
       Inr \<lparr>returned_scan = map_option action_error (action_err f4), invoked_scan = True,
            breaker_scan = windowAfter_scan c [f1, f2, f3, f4]\<rparr>"
    by simp
  from assms(4) step[of "[f1, f2, f3, f4]" f5] have e5:
    "Execute_scan (windowAfter_scan c [f1, f2, f3, f4]) f5 =
       Inr \<lparr>returned_scan = map_option action_error (action_err f5), invoked_scan = True,
            breaker_scan = windowAfter_scan c [f1, f2, f3, f4, f5]\<rparr>"
    by simp
  from assms(4) step[of "[f1, f2, f3, f4, f5]" f6] have e6:
    "Execute_scan (windowAfter_scan c [f1, f2, f3, f4, f5]) f6 =
       Inr \<lparr>returned_scan = map_option action_error (action_err f6), invoked_scan = True,
            breaker_scan = (windowAfter_scan c [f1, f2, f3, f4, f5, f6])
                             \<lparr>state_scan := Some Open, lastFailureTime_scan := now_eval f6\<rparr>\<rparr>"
    by simp
  from n e1 e2 e3 e4 e5 e6 show ?thesis by simp
qed

lemma run_append:
  "run cb (xs @ ys) =
     (case run cb xs of None \<Rightarrow> None | Some (Inl p) \<Rightarrow> Some (Inl p) | Some (Inr cb') \<Rightarrow> run cb' ys)"
  by (induction xs arbitrary: cb) (auto split: option.splits sum.splits)

lemma run_scan_append:
  "run_scan cb (xs @ ys) = (case run_scan cb xs of Inl p \<Rightarrow> Inl p | Inr cb' \<Rightarrow> run_scan cb' ys)"
  by (induction xs arbitrary: cb) (auto split: sum.splits)

text \<open>
  C9. With \<open>FailureRateThreshold = 50\<close>, \<open>MinimumNumberOfCalls = 6\<close>, a count-based window
  of size 10, \<open>WaitDurationInOpenState\<close> of 2 s and three permitted half-open calls, in both
  engines:
  \<^item> six failing calls on a new breaker leave it Open, \<open>lastFailureTime\<close> being the clock
    reading of the sixth recording;
  \<^item> a call \<open>g\<close> admitted at least 2 s after that moves the breaker to Half-Open in its
    admission check and is itself admitted as the first half-open call; when it neither
    fails nor is slow the breaker is Half-Open with \<open>halfOpenCalls = 1\<close> after it;
  \<^item> two more calls that neither fail nor are slow fill the quota: the breaker is Closed
    and \<open>halfOpenCalls\<close> is 0.
\<close>

theorem C9_recovery_scenario:
  fixes f1 :: "'e Call"
  assumes "FailureRateThreshold c = 50" and "MinimumNumberOfCalls c = 6"
    and "SlidingWindowType c = COUNT_BASED" and "SlidingWindowSize c = 10"
    and "WaitDurationInOpenState c = 2000000000"
    and "PermittedNumberOfCallsInHalfOpenState c = 3"
    and "list_all (\<lambda>f. action_err f \<noteq> None) [f1, f2, f3, f4, f5, f6]"
    and "2000000000 \<le> now_admit g - now_eval f6"
    and "list_all (\<lambda>h. action_err h = None \<and> action_duration h < SlowCallDurationThreshold c)
           [g, h1, h2]"
  shows "(\<exists>cb6 cb7 cb9.
            run (NewCircuitBreaker c) [f1, f2, f3, f4, f5, f6] = Some (Inr cb6) \<and>
            state cb6 = Some Open \<and> lastFailureTime cb6 = now_eval f6 \<and>
            preAdmission cb6 (now_admit g) =
              Admitted (cb6\<lparr>state := Some HalfOpen, halfOpenCalls := 1\<rparr>) \<and>
            run cb6 [g] = Some (Inr cb7) \<and>
            state cb7 = Some HalfOpen \<and> halfOpenCalls cb7 = 1 \<and>
            run cb7 [h1, h2] = Some (Inr cb9) \<and>
            state cb9 = Some Closed \<and> halfOpenCalls cb9 = 0 \<and>
            run (NewCircuitBreaker c) [f1, f2, f3, f4, f5, f6, g, h1, h2] = Some (Inr cb9)) \<and>
         (\<exists>cb6 cb7 cb9.
            run_scan (NewCircuitBreaker_scan c) [f1, f2, f3, f4, f5, f6] = Inr cb6 \<and>
            state_scan cb6 = Some Open \<and> lastFailureTime_scan cb6 = now_eval f6 \<and>
            preAdmission_scan cb6 (now_admit g) =
              Admitted_scan (cb6\<lparr>state_scan := Some HalfOpen, halfOpenCalls_scan := 1\<rparr>) \<and>
            run_scan cb6 [g] = Inr cb7 \<and>
            state_scan cb7 = Some HalfOpen \<and> halfOpenCalls_scan cb7 = 1 \<and>
            run_scan cb7 [h1, h2] = Inr cb9 \<and>
            state_scan cb9 = Some Closed \<and> halfOpenCalls_scan cb9 = 0 \<and>
            run_scan (NewCircuitBreaker_scan c) [f1, f2, f3, f4, f5, f6, g, h1, h2] = Inr cb9)"
proof (rule conjI)
  from assms(9) have ok:
    "action_err g = None" "action_duration g < SlowCallDurationThreshold c"
    "action_err h1 = None" "action_duration h1 < SlowCallDurationThreshold c"
    "action_err h2 = None" "action_duration h2 < SlowCallDurationThreshold c"
    by simp_all
  define cb6 where
    "cb6 = (windowAfter c [f1, f2, f3, f4, f5, f6])
             \<lparr>state := Some Open, lastFailureTime := now_eval f6\<rparr>"
  have r6: "run (NewCircuitBreaker c) [f1, f2, f3, f4, f5, f6] = Some (Inr cb6)"
    unfolding cb6_def by (rule six_failures_open[OF assms(4,3,2,1,7)])
  have s6: "state cb6 = Some Open" "lastFailureTime cb6 = now_eval f6" "config cb6 = c"
    "length (requests cb6) = 6"
    by (simp_all add: cb6_def windowAfter_def)
  define cb6h where "cb6h = cb6\<lparr>state := Some HalfOpen, halfOpenCalls := 0\<rparr>"
  have w: "WaitDurationInOpenState (config cb6) \<le> now_admit g - lastFailureTime cb6"
    using assms(5,8) s6 by simp
  have p6: "preAdmission cb6 (now_admit g) =
              Admitted (cb6\<lparr>state := Some HalfOpen, halfOpenCalls := 1\<rparr>)"
    using s6 w assms(6)
    by (simp add: preAdmission_def IsOpen_def IsHalfOpen_def SetState_def)
  have e6: "Execute cb6 g = Execute cb6h g"
    unfolding cb6h_def by (rule Execute_open_elapsed(2)[OF s6(1) w])
  have h6: "state cb6h = Some HalfOpen" "config cb6h = c" "length (requests cb6h) < 10"
    "halfOpenCalls cb6h < 3" "halfOpenCalls cb6h = 0"
    using s6 by (simp_all add: cb6h_def cb6_def windowAfter_def)
  from half_open_step[OF assms(4,3,6) h6(1-4) ok(1,2)] h6(5) obtain cb7 where
    e7: "Execute cb6h g = Some (Inr \<lparr>returned = None, invoked = True, breaker = cb7\<rparr>)" and
    s7: "config cb7 = c" "length (requests cb7) = length (requests cb6h) + 1"
        "state cb7 = Some HalfOpen" "halfOpenCalls cb7 = 1"
    by auto
  have l7: "length (requests cb7) < 10" "halfOpenCalls cb7 < 3"
    using s7 s6 by (simp_all add: cb6h_def)
  from half_open_step[OF assms(4,3,6) s7(3,1) l7 ok(3,4)] s7(4) obtain cb8 where
    e8: "Execute cb7 h1 = Some (Inr \<lparr>returned = None, invoked = True, breaker = cb8\<rparr>)" and
    s8: "config cb8 = c" "length (requests cb8) = length (requests cb7) + 1"
        "state cb8 = Some HalfOpen" "halfOpenCalls cb8 = 2"
    by auto
  have l8: "length (requests cb8) < 10" "halfOpenCalls cb8 < 3"
    using s8 s7 s6 by (simp_all add: cb6h_def)
  from half_open_step[OF assms(4,3,6) s8(3,1) l8 ok(5,6)] s8(4) obtain cb9 where
    e9: "Execute cb8 h2 = Some (Inr \<lparr>returned = None, invoked = True, breaker = cb9\<rparr>)" and
    s9: "state cb9 = Some Closed" "halfOpenCalls cb9 = 0"
    by auto
  have r7: "run cb6 [g] = Some (Inr cb7)" using e6 e7 by simp
  have r9: "run cb7 [h1, h2] = Some (Inr cb9)" using e8 e9 by simp
  have "run (NewCircuitBreaker c) ([f1, f2, f3, f4, f5, f6] @ ([g] @ [h1, h2])) = Some (Inr cb9)"
    unfolding run_append r6 by (simp add: r7 r9 del: run.simps)
  then have e1: "run (NewCircuitBreaker c) [f1, f2, f3, f4, f5, f6, g, h1, h2] = Some (Inr cb9)"
    by (simp del: run.simps)
  from r6 s6 p6 r7 s7 r9 s9 e1
  show "\<exists>cb6 cb7 cb9.
            run (NewCircuitBreaker c) [f1, f2, f3, f4, f5, f6] = Some (Inr cb6) \<and>
            state cb6 = Some Open \<and> lastFailureTime cb6 = now_eval f6 \<and>
            preAdmission cb6 (now_admit g) =
              Admitted (cb6\<lparr>state := Some HalfOpen, halfOpenCalls := 1\<rparr>) \<and>
            run cb6 [g] = Some (Inr cb7) \<and>
            state cb7 = Some HalfOpen \<and> halfOpenCalls cb7 = 1 \<and>
            run cb7 [h1, h2] = Some (Inr cb9) \<and>
            state cb9 = Some Closed \<and> halfOpenCalls cb9 = 0 \<and>
            run (NewCircuitBreaker c) [f1, f2, f3, f4, f5, f6, g, h1, h2] = Some (Inr cb9)"
    by (intro exI[of _ cb6] exI[of _ cb7] exI[of _ cb9]) (simp del: run.simps run_scan.simps)
next
  from assms(9) have ok:
    "action_err g = None" "action_duration g < SlowCallDurationThreshold c"
    "action_err h1 = None" "action_duration h1 < SlowCallDurationThreshold c"
    "action_err h2 = None" "action_duration h2 < SlowCallDurationThreshold c"
    by simp_all
  define cb6 where
    "cb6 = (windowAfter_scan c [f1, f2, f3, f4, f5, f6])
             \<lparr>state_scan := Some Open, lastFailureTime_scan := now_eval f6\<rparr>"
  have r6: "run_scan (NewCircuitBreaker_scan c) [f1, f2, f3, f4, f5, f6] = Inr cb6"
    unfolding cb6_def by (rule six_failures_open_scan[OF assms(4,2,1,7)])
  have s6: "state_scan cb6 = Some Open" "lastFailureTime_scan cb6 = now_eval f6"
    "config_scan cb6 = c" "length (requests_scan cb6) = 6"
    by (simp_all add: cb6_def windowAfter_scan_def)
  define cb6h where "cb6h = cb6\<lparr>state_scan := Some HalfOpen, halfOpenCalls_scan := 0\<rparr>"
  have w: "WaitDurationInOpenState (config_scan cb6) \<le> now_admit g - lastFailureTime_scan cb6"
    using assms(5,8) s6 by simp
  have p6: "preAdmission_scan cb6 (now_admit g) =
              Admitted_scan (cb6\<lparr>state_scan := Some HalfOpen, halfOpenCalls_scan := 1\<rparr>)"
    using s6 w assms(6)
    by (simp add: preAdmission_scan_def IsOpen_scan_def IsHalfOpen_scan_def SetState_scan_def)
  have e6: "Execute_scan cb6 g = Execute_scan cb6h g"
    unfolding cb6h_def by (rule Execute_scan_open_elapsed(2)[OF s6(1) w])
  have h6: "state_scan cb6h = Some HalfOpen" "config_scan cb6h = c"
    "length (requests_scan cb6h) < 10" "halfOpenCalls_scan cb6h < 3" "halfOpenCalls_scan cb6h = 0"
    using s6 by (simp_all add: cb6h_def cb6_def windowAfter_scan_def)
  from half_open_step_scan[OF assms(4,6) h6(1-4) ok(1,2)] h6(5) obtain cb7 where
    e7: "Execute_scan cb6h g =
           Inr \<lparr>returned_scan = None, invoked_scan = True, breaker_scan = cb7\<rparr>" and
    s7: "config_scan cb7 = c" "length (requests_scan cb7) = length (requests_scan cb6h) + 1"
        "state_scan cb7 = Some HalfOpen" "halfOpenCalls_scan cb7 = 1"
    by auto
  have l7: "length (requests_scan cb7) < 10" "halfOpenCalls_scan cb7 < 3"
    using s7 s6 by (simp_all add: cb6h_def)
  from half_open_step_scan[OF assms(4,6) s7(3,1) l7 ok(3,4)] s7(4) obtain cb8 where
    e8: "Execute_scan cb7 h1 =
           Inr \<lparr>returned_scan = None, invoked_scan = True, breaker_scan = cb8\<rparr>" and
    s8: "config_scan cb8 = c" "length (requests_scan cb8) = length (requests_scan cb7) + 1"
        "state_scan cb8 = Some HalfOpen" "halfOpenCalls_scan cb8 = 2"
    by auto
  have l8: "length (requests_scan cb8) < 10" "halfOpenCalls_scan cb8 < 3"
    using s8 s7 s6 by (simp_all add: cb6h_def)
  from half_open_step_scan[OF assms(4,6) s8(3,1) l8 ok(5,6)] s8(4) obtain cb9 where
    e9: "Execute_scan cb8 h2 =
           Inr \<lparr>returned_scan = None, invoked_scan = True, breaker_scan = cb9\<rparr>" and
    s9: "state_scan cb9 = Some Closed" "halfOpenCalls_scan cb9 = 0"
    by auto
  have r7: "run_scan cb6 [g] = Inr cb7" using e6 e7 by simp
  have r9: "run_scan cb7 [h1, h2] = Inr cb9" using e8 e9 by simp
  have "run_scan (NewCircuitBreaker_scan c) ([f1, f2, f3, f4, f5, f6] @ ([g] @ [h1, h2])) = Inr cb9"
    unfolding run_scan_append r6 by (simp add: r7 r9 del: run_scan.simps)
  then have e1: "run_scan (NewCircuitBreaker_scan c) [f1, f2, f3, f4, f5, f6, g, h1, h2] = Inr cb9"
    by (simp del: run_scan.simps)
  from r6 s6 p6 r7 s7 r9 s9 e1
  show "\<exists>cb6 cb7 cb9.
            run_scan (NewCircuitBreaker_scan c) [f1, f2, f3, f4, f5, f6] = Inr cb6 \<and>
            state_scan cb6 = Some Open \<and> lastFailureTime_scan cb6 = now_eval f6 \<and>
            preAdmission_scan cb6 (now_admit g) =
              Admitted_scan (cb6\<lparr>state_scan := Some HalfOpen, halfOpenCalls_scan := 1\<rparr>) \<and>
            run_scan cb6 [g] = Inr cb7 \<and>
            state_scan cb7 = Some HalfOpen \<and> halfOpenCalls_scan cb7 = 1 \<and>
            run_scan cb7 [h1, h2] = Inr cb9 \<and>
            state_scan cb9 = Some Closed \<and> halfOpenCalls_scan cb9 = 0 \<and>
            run_scan (NewCircuitBreaker_scan c) [f1, f2, f3, f4, f5, f6, g, h1, h2] = Inr cb9"
    by (intro exI[of _ cb6] exI[of _ cb7] exI[of _ cb9]) (simp del: run.simps run_scan.simps)
qed

theorem C9_recovery_scenario_witness:
  "(\<exists>cb6 cb7 cb9.
      run (NewCircuitBreaker testConfig)
        [failingCall 0, failingCall 1, failingCall 2, failingCall 3, failingCall 4, failingCall 5]
        = Some (Inr cb6) \<and>
      state cb6 = Some Open \<and> lastFailureTime cb6 = 1005 \<and>
      preAdmission cb6 3000000000 = Admitted (cb6\<lparr>state := Some HalfOpen, halfOpenCalls := 1\<rparr>) \<and>
      run cb6 [succeedingCall 3000000000] = Some (Inr cb7) \<and>
      state cb7 = Some HalfOpen \<and> halfOpenCalls cb7 = 1 \<and>
      run cb7 [succeedingCall 3000000001, succeedingCall 3000000002] = Some (Inr cb9) \<and>
      state cb9 = Some Closed \<and> halfOpenCalls cb9 = 0) \<and>
   (\<exists>cb6 cb7 cb9.
      run_scan (NewCircuitBreaker_scan testConfig)
        [failingCall 0, failingCall 1, failingCall 2, failingCall 3, failingCall 4, failingCall 5]
        = Inr cb6 \<and>
      state_scan cb6 = Some Open \<and> lastFailureTime_scan cb6 = 1005 \<and>
      run_scan cb6 [succeedingCall 3000000000] = Inr cb7 \<and>
      state_scan cb7 = Some HalfOpen \<and> halfOpenCalls_scan cb7 = 1 \<and>
      run_scan cb7 [succeedingCall 3000000001, succeedingCall 3000000002] = Inr cb9 \<and>
      state_scan cb9 = Some Closed \<and> halfOpenCalls_scan cb9 = 0)"
proof -
  have cfg: "FailureRateThreshold testConfig = 50" "MinimumNumberOfCalls testConfig = 6"
    "SlidingWindowType testConfig = COUNT_BASED" "SlidingWindowSize testConfig = 10"
    "WaitDurationInOpenState testConfig = 2000000000"
    "PermittedNumberOfCallsInHalfOpenState testConfig = 3"
    by (simp_all add: testConfig_def)
  have fails: "list_all (\<lambda>f. action_err f \<noteq> None)
      [failingCall 0, failingCall 1, failingCall 2, failingCall 3, failingCall 4, failingCall 5]"
    by (simp add: failingCall_def)
  have later: "2000000000 \<le> now_admit (succeedingCall 3000000000) - now_eval (failingCall 5)"
    by (simp add: failingCall_def succeedingCall_def)
  have ok: "list_all (\<lambda>h. action_err h = None \<and>
                action_duration h < SlowCallDurationThreshold testConfig)
      [succeedingCall 3000000000, succeedingCall 3000000001, succeedingCall 3000000002]"
    by (simp add: succeedingCall_def testConfig_def)
  have t: "now_eval (failingCall 5) = 1005" "now_admit (succeedingCall 3000000000) = 3000000000"
    by (simp_all add: failingCall_def succeedingCall_def)
  from C9_recovery_scenario[OF cfg fails later ok] show ?thesis
    unfolding t by blast
qed


end
